theory Spec2Isabelle
  imports Main
begin

section \<open>JavaScript values and string primitives\<close>

text \<open>
  The detectors of \<^verbatim>\<open>src/index.js\<close> return a string, \<^verbatim>\<open>null\<close>, \<^verbatim>\<open>false\<close> or (by
  falling off the end of the function) \<^verbatim>\<open>undefined\<close>. The caller only tests the value
  for truthiness, so the model keeps the four kinds of value apart and writes the test out.

  Strings are lists of code units. A \<^typ>\<open>char\<close> is read as a code unit below 256 (the
  Latin-1 slice of UTF-16), which is where every character the patterns mention lives.
\<close>

datatype jsval = JUndefined | JNull | JFalse | JStr string

fun truthy :: "jsval \<Rightarrow> bool" where
  "truthy (JStr s) = (s \<noteq> [])"
| "truthy JUndefined = False"
| "truthy JNull = False"
| "truthy JFalse = False"

definition lineTerminator :: "char \<Rightarrow> bool" where
  "lineTerminator c = (c = CHR 0x0A \<or> c = CHR 0x0D)"

definition whiteSpace :: "char \<Rightarrow> bool" where
  \<comment> \<open>what \<^verbatim>\<open>trim\<close> strips and \<^verbatim>\<open>\s\<close> matches: tab, LF, VT, FF, CR, space, NBSP\<close>
  "whiteSpace c = (c \<in> set [CHR 0x09, CHR 0x0A, CHR 0x0B, CHR 0x0C, CHR 0x0D, CHR 0x20, CHR 0xA0])"

definition asciiSpace :: "char \<Rightarrow> bool" where
  \<comment> \<open>the separators of a \<^verbatim>\<open>class\<close> attribute's tokens\<close>
  "asciiSpace c = (c \<in> set [CHR 0x09, CHR 0x0A, CHR 0x0C, CHR 0x0D, CHR 0x20])"

definition toLowerChar :: "char \<Rightarrow> char" where
  "toLowerChar c =
     (let n = (of_char c :: nat)
      in if (65 \<le> n \<and> n \<le> 90) \<or> (192 \<le> n \<and> n \<le> 222 \<and> n \<noteq> 215)
         then char_of (n + 32) else c)"

definition toUpperChar :: "char \<Rightarrow> char" where
  \<comment> \<open>the case folding of the \<^verbatim>\<open>i\<close> flag; a character whose capital lies beyond
      code unit 255 folds to itself there, and is kept as it is here\<close>
  "toUpperChar c =
     (let n = (of_char c :: nat)
      in if (97 \<le> n \<and> n \<le> 122) \<or> (224 \<le> n \<and> n \<le> 254 \<and> n \<noteq> 247)
         then char_of (n - 32) else c)"

definition toLowerCase :: "string \<Rightarrow> string" where
  "toLowerCase s = map toLowerChar s"

definition trim :: "string \<Rightarrow> string" where
  "trim s = rev (dropWhile whiteSpace (rev (dropWhile whiteSpace s)))"

fun indexOfFrom :: "string \<Rightarrow> string \<Rightarrow> nat \<Rightarrow> int" where
  "indexOfFrom [] p i = (if p = [] then int i else - 1)"
| "indexOfFrom (c # cs) p i =
     (if take (length p) (c # cs) = p then int i else indexOfFrom cs p (Suc i))"

definition indexOf :: "string \<Rightarrow> string \<Rightarrow> int" where
  \<comment> \<open>\<^verbatim>\<open>s.indexOf(p)\<close>: the first position where \<open>p\<close> occurs, or -1\<close>
  "indexOf s p = indexOfFrom s p 0"

definition str_replace :: "string \<Rightarrow> string \<Rightarrow> string \<Rightarrow> string" where
  \<comment> \<open>\<^verbatim>\<open>s.replace(p, r)\<close> with a string pattern: only the first occurrence is replaced\<close>
  "str_replace s p r =
     (let i = indexOf s p
      in if i < 0 then s else take (nat i) s @ r @ drop (nat i + length p) s)"

fun arrayIndexOfFrom :: "'a list \<Rightarrow> 'a \<Rightarrow> nat \<Rightarrow> int" where
  "arrayIndexOfFrom [] x i = - 1"
| "arrayIndexOfFrom (y # ys) x i = (if y = x then int i else arrayIndexOfFrom ys x (Suc i))"

definition arrayIndexOf :: "'a list \<Rightarrow> 'a \<Rightarrow> int" where
  "arrayIndexOf xs x = arrayIndexOfFrom xs x 0"

section \<open>Regular expressions\<close>

text \<open>
  Every pattern of the source is a sequence of single characters, character classes and
  quantified character classes, with one capture group. The matcher below is the
  backtracking matcher of the language definition for that fragment: a greedy quantifier
  first tries one more character and falls back to the rest of the pattern, a lazy one
  tries the rest of the pattern first. Positions count from the start of the match.
\<close>

datatype atom =
    Lit char
  | Dot
  | Digit
  | Space
  | OneOf "char list" "(char \<times> char) list"
  | NoneOf "char list"

datatype item =
    One atom
  | Rep atom nat "nat option" bool
  | GroupOpen
  | GroupClose

record regex =
  items :: "item list"
  ignoreCase :: bool
  global :: bool

definition inClass :: "char list \<Rightarrow> (char \<times> char) list \<Rightarrow> char \<Rightarrow> bool" where
  "inClass cs rs c =
     (c \<in> set cs \<or>
      (\<exists>(lo, hi) \<in> set rs. (of_char lo :: nat) \<le> of_char c \<and> (of_char c :: nat) \<le> of_char hi))"

definition inClassFolded :: "bool \<Rightarrow> char list \<Rightarrow> (char \<times> char) list \<Rightarrow> char \<Rightarrow> bool" where
  \<comment> \<open>with the \<^verbatim>\<open>i\<close> flag a class holds a character when it holds its other case\<close>
  "inClassFolded ic cs rs c =
     (inClass cs rs c \<or> (ic \<and> (inClass cs rs (toUpperChar c) \<or> inClass cs rs (toLowerChar c))))"

fun atom_match :: "bool \<Rightarrow> atom \<Rightarrow> char \<Rightarrow> bool" where
  "atom_match ic (Lit a) c = (if ic then toUpperChar c = toUpperChar a else c = a)"
| "atom_match ic Dot c = (\<not> lineTerminator c)"
| "atom_match ic Digit c = (c \<in> set ''0123456789'')"
| "atom_match ic Space c = whiteSpace c"
| "atom_match ic (OneOf cs rs) c = inClassFolded ic cs rs c"
| "atom_match ic (NoneOf cs) c = (\<not> inClassFolded ic cs [] c)"

fun bt :: "bool \<Rightarrow> item list \<Rightarrow> string \<Rightarrow> nat \<Rightarrow> nat \<times> nat \<Rightarrow> (nat \<times> nat \<times> nat) option" where
  "bt ic [] s pos cap = Some (pos, cap)"
| "bt ic (GroupOpen # r) s pos cap = bt ic r s pos (pos, snd cap)"
| "bt ic (GroupClose # r) s pos cap = bt ic r s pos (fst cap, pos)"
| "bt ic (One a # r) s pos cap =
     (case s of
        [] \<Rightarrow> None
      | c # cs \<Rightarrow> if atom_match ic a c then bt ic r cs (Suc pos) cap else None)"
| "bt ic (Rep a lo hi True # r) s pos cap =
     (case (case s of
              [] \<Rightarrow> None
            | c # cs \<Rightarrow>
                if hi \<noteq> Some 0 \<and> atom_match ic a c
                then bt ic (Rep a (lo - 1) (map_option (\<lambda>h. h - 1) hi) True # r) cs (Suc pos) cap
                else None) of
        Some res \<Rightarrow> Some res
      | None \<Rightarrow> if lo = 0 then bt ic r s pos cap else None)"
| "bt ic (Rep a lo hi False # r) s pos cap =
     (case (if lo = 0 then bt ic r s pos cap else None) of
        Some res \<Rightarrow> Some res
      | None \<Rightarrow>
          (case s of
             [] \<Rightarrow> None
           | c # cs \<Rightarrow>
               if hi \<noteq> Some 0 \<and> atom_match ic a c
               then bt ic (Rep a (lo - 1) (map_option (\<lambda>h. h - 1) hi) False # r) cs (Suc pos) cap
               else None))"

text \<open>
  The search for the leftmost match: the pattern is tried at every start position in
  turn. The result is the match's index and its array: the matched text, then the text
  of the capture group when the pattern has one.
\<close>

fun scan :: "regex \<Rightarrow> string \<Rightarrow> nat \<Rightarrow> (nat \<times> string list) option" where
  "scan re s i =
     (case bt (ignoreCase re) (items re) s 0 (0, 0) of
        Some (e, gs, ge) \<Rightarrow>
          Some (i, take e s # (if GroupOpen \<in> set (items re) then [take (ge - gs) (drop gs s)] else []))
      | None \<Rightarrow> (case s of [] \<Rightarrow> None | c # cs \<Rightarrow> scan re cs (Suc i)))"

definition regex_exec :: "regex \<Rightarrow> string \<Rightarrow> string list option" where
  \<comment> \<open>\<^verbatim>\<open>re.exec(s)\<close> for a pattern without the \<^verbatim>\<open>g\<close> flag: the array, or \<^verbatim>\<open>null\<close>\<close>
  "regex_exec re s = map_option snd (scan re s 0)"

fun match_global :: "regex \<Rightarrow> string \<Rightarrow> string list" where
  "match_global re s =
     (case scan re s 0 of
        None \<Rightarrow> []
      | Some (i, []) \<Rightarrow> []
      | Some (i, m0 # caps) \<Rightarrow>
          (let k = i + max 1 (length m0)
           in m0 # (if k \<le> length s then match_global re (drop k s) else [])))"

definition str_match :: "string \<Rightarrow> regex \<Rightarrow> string list option" where
  \<comment> \<open>\<^verbatim>\<open>s.match(re)\<close>: with the \<^verbatim>\<open>g\<close> flag the texts of all matches, or \<^verbatim>\<open>null\<close> when
      there is none; without it the array of \<^verbatim>\<open>exec\<close>\<close>
  "str_match s re =
     (if global re
      then (case match_global re s of [] \<Rightarrow> None | m # ms \<Rightarrow> Some (m # ms))
      else regex_exec re s)"

definition lits :: "string \<Rightarrow> item list" where
  "lits s = map (\<lambda>c. One (Lit c)) s"

section \<open>The page\<close>

text \<open>
  The script reads four things of the page: the markup of the document element, the
  title and the host name, each copied into a variable when the script loads, and the
  element tree, queried when a detector runs. An element is what the four selectors
  and the properties read of it: its local name, its attributes and its inner markup.
  The tree is the list of its elements in document order.
\<close>

record element =
  localName :: string
  attrs :: "string \<rightharpoonup> string"
  innerHTML :: string

record page =
  docAsStr :: string
  docTitle :: string
  myHost :: string
  document :: "element list"

datatype selector =
    Tag string
  | HasAttr string
  | TagClass string string
  | TagAttrEq string string string

fun tokens_acc :: "string \<Rightarrow> string \<Rightarrow> string list" where
  "tokens_acc cur [] = (if cur = [] then [] else [cur])"
| "tokens_acc cur (c # cs) =
     (if asciiSpace c then (if cur = [] then [] else [cur]) @ tokens_acc [] cs
      else tokens_acc (cur @ [c]) cs)"

definition reflected :: "element \<Rightarrow> string \<Rightarrow> string" where
  \<comment> \<open>a property that reflects an attribute: its value, the empty string when absent\<close>
  "reflected e a = (case attrs e a of None \<Rightarrow> [] | Some v \<Rightarrow> v)"

definition classList :: "element \<Rightarrow> string list" where
  "classList e = tokens_acc [] (reflected e ''class'')"

fun selects :: "selector \<Rightarrow> element \<Rightarrow> bool" where
  "selects (Tag t) e = (localName e = t)"
| "selects (HasAttr a) e = (attrs e a \<noteq> None)"
| "selects (TagClass t c) e = (localName e = t \<and> c \<in> set (classList e))"
| "selects (TagAttrEq t a v) e = (localName e = t \<and> attrs e a = Some v)"

definition querySelectorAll :: "page \<Rightarrow> selector \<Rightarrow> element list" where
  "querySelectorAll p sel = filter (selects sel) (document p)"

definition dataset :: "element \<Rightarrow> string \<Rightarrow> jsval" where
  "dataset e k = (case attrs e (''data-'' @ k) of None \<Rightarrow> JUndefined | Some v \<Rightarrow> JStr v)"

section \<open>The detectors\<close>

definition runRegexOnDoc :: "page \<Rightarrow> regex \<Rightarrow> jsval \<Rightarrow> jsval" where
  "runRegexOnDoc p re host =
     (if \<not> truthy host \<or> host = JStr (myHost p)
      then (case regex_exec re (docAsStr p) of
              Some m \<Rightarrow> if length m > 1 then JStr (m ! 1) else JFalse
            | None \<Rightarrow> JFalse)
      else JFalse)"

definition doiMetaNames :: "string list" where
  "doiMetaNames =
     [''citation_doi'', ''doi'', ''dc.doi'', ''dc.identifier'', ''dc.identifier.doi'',
      ''bepress_citation_doi'', ''rft_id'', ''dcsext.wt_doi'']"

definition metaCallback :: "jsval \<Rightarrow> element \<Rightarrow> jsval" where
  \<comment> \<open>one call of the function given to \<^verbatim>\<open>metas.forEach\<close>: the variable \<^verbatim>\<open>doi\<close> before
      the call, and after it\<close>
  "metaCallback doi myMeta =
     (if reflected myMeta ''name'' = [] then doi
      else if arrayIndexOf doiMetaNames (toLowerCase (reflected myMeta ''name'')) < 0 then doi
      else if reflected myMeta ''scheme'' \<noteq> [] \<and> reflected myMeta ''scheme'' \<noteq> ''doi'' then doi
      else (let doiCandidate = trim (str_replace (reflected myMeta ''content'') ''doi:'' [])
            in if indexOf doiCandidate ''10.'' = 0 then JStr doiCandidate else doi))"

definition findDoiFromMetaTags :: "page \<Rightarrow> jsval" where
  "findDoiFromMetaTags p =
     (let metas = querySelectorAll p (Tag ''meta'');
          doi = foldl metaCallback JUndefined metas
      in if \<not> truthy doi then JNull else doi)"

definition findDoiFromDataDoiAttributes :: "page \<Rightarrow> jsval" where
  "findDoiFromDataDoiAttributes p =
     (let dataDoiNodes = querySelectorAll p (HasAttr ''data-doi'');
          dataDoiValues = map (\<lambda>node. dataset node ''doi'') dataDoiNodes;
          numUniqueDois = card (set dataDoiValues)
      in if numUniqueDois = 1 then dataDoiValues ! 0 else JNull)"

definition sdmDoiRe :: regex where
  \<comment> \<open>\<^verbatim>\<open>/SDM.doi\s*=\s*'([^']+)'/\<close>\<close>
  "sdmDoiRe =
     \<lparr>items = lits ''SDM'' @ [One Dot] @ lits ''doi'' @ [Rep Space 0 None True, One (Lit CHR ''=''),
                Rep Space 0 None True, One (Lit CHR 0x27), GroupOpen,
                Rep (NoneOf [CHR 0x27]) 1 None True, GroupClose, One (Lit CHR 0x27)],
      ignoreCase = False, global = False\<rparr>"

definition doiOrgRe :: regex where
  \<comment> \<open>\<^verbatim>\<open>/doi\.org\/(.+)/\<close>\<close>
  "doiOrgRe =
     \<lparr>items = lits ''doi.org/'' @ [GroupOpen, Rep Dot 1 None True, GroupClose],
      ignoreCase = False, global = False\<rparr>"

definition findDoiFromScienceDirect :: "page \<Rightarrow> jsval" where
  "findDoiFromScienceDirect p =
     (if indexOf (myHost p) ''sciencedirect'' < 0 then JNull
      else (let doi = runRegexOnDoc p sdmDoiRe JUndefined
            in if truthy doi then doi
               else (let doiLinkElem = querySelectorAll p (TagClass ''a'' ''doi'')
                     in if doiLinkElem \<noteq> []
                        then (case str_match (innerHTML (doiLinkElem ! 0)) doiOrgRe of
                                Some m \<Rightarrow> if length m > 1 then JStr (m ! 1) else JUndefined
                              | None \<Rightarrow> JUndefined)
                        else JUndefined)))"

definition ieeeRe :: regex where
  \<comment> \<open>\<^verbatim>\<open>/'doi':'([^']+)'/\<close>\<close>
  "ieeeRe =
     \<lparr>items = [One (Lit CHR 0x27)] @ lits ''doi'' @ [One (Lit CHR 0x27), One (Lit CHR '':''),
                One (Lit CHR 0x27), GroupOpen, Rep (NoneOf [CHR 0x27]) 1 None True, GroupClose,
                One (Lit CHR 0x27)],
      ignoreCase = False, global = False\<rparr>"

definition findDoiFromIeee :: "page \<Rightarrow> jsval" where
  "findDoiFromIeee p = runRegexOnDoc p ieeeRe (JStr ''ieeexplore.ieee.org'')"

definition nberRe :: regex where
  \<comment> \<open>\<^verbatim>\<open>/Document Object Identifier \(DOI\): (10.*?)<\/p>/\<close>\<close>
  "nberRe =
     \<lparr>items = lits ''Document Object Identifier (DOI): '' @
                [GroupOpen, One (Lit CHR ''1''), One (Lit CHR ''0''), Rep Dot 0 None False, GroupClose] @
                lits ''</p>'',
      ignoreCase = False, global = False\<rparr>"

definition findDoiFromNumber :: "page \<Rightarrow> jsval" where
  "findDoiFromNumber p = runRegexOnDoc p nberRe (JStr ''www.nber.org'')"

definition findDoiFromPubmed :: "page \<Rightarrow> jsval" where
  "findDoiFromPubmed p =
     (if indexOf (myHost p) ''www.ncbi.nlm.nih.gov'' < 0 then JNull
      else (let doiLinkElem = querySelectorAll p (TagAttrEq ''a'' ''ref'' ''aid_type=doi'')
            in if doiLinkElem \<noteq> [] then JStr (innerHTML (doiLinkElem ! 0)) else JUndefined))"

definition psycnetRe :: regex where
  \<comment> \<open>\<^verbatim>\<open>/href='\/doi\/10\.(.+)/\<close>\<close>
  "psycnetRe =
     \<lparr>items = lits ''href='' @ [One (Lit CHR 0x27)] @ lits ''/doi/10.'' @
                [GroupOpen, Rep Dot 1 None True, GroupClose],
      ignoreCase = False, global = False\<rparr>"

definition findDoiFromPsycnet :: "page \<Rightarrow> jsval" where
  "findDoiFromPsycnet p = runRegexOnDoc p psycnetRe (JStr ''psycnet.apa.org'')"

definition titleRe :: regex where
  \<comment> \<open>\<^verbatim>\<open>/(10.\d{4,9}\/[-._;()\/:A-Z0-9]+)/ig\<close>\<close>
  "titleRe =
     \<lparr>items = [GroupOpen, One (Lit CHR ''1''), One (Lit CHR ''0''), One Dot, Rep Digit 4 (Some 9) True,
                One (Lit CHR ''/''),
                Rep (OneOf ''-._;()/:'' [(CHR ''A'', CHR ''Z''), (CHR ''0'', CHR ''9'')]) 1 None True,
                GroupClose],
      ignoreCase = True, global = True\<rparr>"

definition findDoiFromTitle :: "page \<Rightarrow> jsval" where
  "findDoiFromTitle p =
     (case str_match (docTitle p) titleRe of
        Some doi \<Rightarrow> JStr (doi ! 0)
      | None \<Rightarrow> JNull)"

section \<open>The arbitration\<close>

definition doiFinderFunctions :: "(page \<Rightarrow> jsval) list" where
  "doiFinderFunctions =
     [findDoiFromMetaTags, findDoiFromDataDoiAttributes, findDoiFromScienceDirect,
      findDoiFromIeee, findDoiFromNumber, findDoiFromPsycnet, findDoiFromPubmed,
      findDoiFromTitle]"

text \<open>
  The loop of \<^verbatim>\<open>findDoi\<close> over the remaining detectors. Beside the value it returns, the
  model counts the detectors the loop has called, so that a statement about the ones it
  never calls can be made.
\<close>

fun findDoi_loop :: "(page \<Rightarrow> jsval) list \<Rightarrow> page \<Rightarrow> jsval \<times> nat" where
  "findDoi_loop [] p = (JUndefined, 0)"
| "findDoi_loop (f # fs) p =
     (let myDoi = f p
      in if truthy myDoi then (myDoi, 1)
         else (case findDoi_loop fs p of (r, n) \<Rightarrow> (r, Suc n)))"

definition findDoi :: "page \<Rightarrow> jsval" where
  "findDoi p = fst (findDoi_loop doiFinderFunctions p)"

section \<open>Vocabulary of the statements\<close>

definition qualifying :: "element \<Rightarrow> bool" where
  \<comment> \<open>a meta element that passes the name test and the scheme test of the scan\<close>
  "qualifying e =
     (reflected e ''name'' \<noteq> [] \<and> toLowerCase (reflected e ''name'') \<in> set doiMetaNames \<and>
      (reflected e ''scheme'' = [] \<or> reflected e ''scheme'' = ''doi''))"

definition doiCandidate :: "element \<Rightarrow> string" where
  \<comment> \<open>the candidate of a meta element: its content with the first \<^verbatim>\<open>doi:\<close> taken out
      and the surrounding white space stripped\<close>
  "doiCandidate e = trim (str_replace (reflected e ''content'') ''doi:'' [])"

definition claimed_doiCandidate :: "string \<Rightarrow> string" where
  \<comment> \<open>the candidate as the specification words it: a leading \<^verbatim>\<open>doi:\<close> removed, then the
      surrounding white space; to be compared with what \<open>metaCallback\<close> computes\<close>
  "claimed_doiCandidate c = trim (if take 4 c = ''doi:'' then drop 4 c else c)"

definition dataDois :: "page \<Rightarrow> string set" where
  \<comment> \<open>the distinct values of the \<^verbatim>\<open>data-doi\<close> attribute on the page\<close>
  "dataDois p = set (List.map_filter (\<lambda>e. attrs e ''data-doi'') (document p))"

definition digitChar :: "char \<Rightarrow> bool" where
  \<comment> \<open>what \<^verbatim>\<open>\d\<close> matches\<close>
  "digitChar c = (c \<in> set ''0123456789'')"

definition suffixChar :: "char \<Rightarrow> bool" where
  \<comment> \<open>a character of the suffix of a DOI: the class \<^verbatim>\<open>[-._;()\/:A-Z0-9]\<close> read without
      regard to case\<close>
  "suffixChar c =
     inClass ''-._;()/:'' [(CHR ''A'', CHR ''Z''), (CHR ''a'', CHR ''z''), (CHR ''0'', CHR ''9'')] c"

definition doiShapeAt :: "string \<Rightarrow> bool" where
  \<comment> \<open>the text starts with the shape of a DOI: \<^verbatim>\<open>10\<close>, one character that is no line
      terminator, four to nine digits, a slash, a character of the suffix\<close>
  "doiShapeAt s =
     (\<exists>n \<in> set [4..<10].
        n + 5 \<le> length s \<and> take 2 s = ''10'' \<and> \<not> lineTerminator (s ! 2) \<and>
        list_all digitChar (take n (drop 3 s)) \<and> s ! (n + 3) = CHR ''/'' \<and>
        suffixChar (s ! (n + 4)))"

definition doiShaped :: "string \<Rightarrow> bool" where
  \<comment> \<open>the text has a substring of the shape of a DOI\<close>
  "doiShaped t = (\<exists>i \<in> set [0..<Suc (length t)]. doiShapeAt (drop i t))"

definition classCode :: "nat \<Rightarrow> bool" where
  \<comment> \<open>the code units of the class \<^verbatim>\<open>[-._;()\/:A-Z0-9]\<close>\<close>
  "classCode m = (m \<in> {45, 46, 95, 59, 40, 41, 47, 58} \<or> (65 \<le> m \<and> m \<le> 90) \<or> (48 \<le> m \<and> m \<le> 57))"

section \<open>Example pages\<close>

definition meta_viewport :: element where
  "meta_viewport =
     \<lparr>localName = ''meta'', attrs = [''name'' \<mapsto> ''viewport'', ''content'' \<mapsto> ''width=device-width''],
      innerHTML = []\<rparr>"

definition meta_first :: element where
  "meta_first =
     \<lparr>localName = ''meta'', attrs = [''name'' \<mapsto> ''citation_doi'', ''content'' \<mapsto> ''10.1111/first''],
      innerHTML = []\<rparr>"

definition meta_second :: element where
  "meta_second =
     \<lparr>localName = ''meta'', attrs = [''name'' \<mapsto> ''DC.Identifier'', ''content'' \<mapsto> ''10.2222/second''],
      innerHTML = []\<rparr>"

definition meta_isbn :: element where
  "meta_isbn =
     \<lparr>localName = ''meta'', attrs = [''name'' \<mapsto> ''dc.identifier'', ''content'' \<mapsto> ''urn:isbn:9780262033848''],
      innerHTML = []\<rparr>"

definition page_two_metas :: page where
  "page_two_metas =
     \<lparr>docAsStr = [], docTitle = [], myHost = ''example.org'',
      document = [meta_viewport, meta_first, meta_second, meta_viewport, meta_isbn]\<rparr>"

definition meta_doi_prefixed :: element where
  "meta_doi_prefixed =
     \<lparr>localName = ''meta'', attrs = [''name'' \<mapsto> ''citation_doi'', ''content'' \<mapsto> ''doi:10.1234/abc''],
      innerHTML = []\<rparr>"

definition meta_doi_inside :: element where
  "meta_doi_inside =
     \<lparr>localName = ''meta'', attrs = [''name'' \<mapsto> ''citation_doi'', ''content'' \<mapsto> ''10.1234/doi:abc''],
      innerHTML = []\<rparr>"

definition meta_empty_scheme :: element where
  "meta_empty_scheme =
     \<lparr>localName = ''meta'',
      attrs = [''name'' \<mapsto> ''citation_doi'', ''scheme'' \<mapsto> [], ''content'' \<mapsto> ''10.1234/abc''],
      innerHTML = []\<rparr>"

definition meta_publisher_id :: element where
  "meta_publisher_id =
     \<lparr>localName = ''meta'',
      attrs = [''name'' \<mapsto> ''citation_doi'', ''scheme'' \<mapsto> ''publisher-id'',
               ''content'' \<mapsto> ''10.1177/00034894991080S423''],
      innerHTML = []\<rparr>"

definition page_of :: "element list \<Rightarrow> page" where
  "page_of es = \<lparr>docAsStr = [], docTitle = [], myHost = ''example.org'', document = es\<rparr>"

definition page_meta_and_title :: page where
  "page_meta_and_title =
     \<lparr>docAsStr = [], docTitle = ''Review of 10.5555/xyz'', myHost = ''example.org'',
      document =
        [\<lparr>localName = ''meta'',
          attrs = [''name'' \<mapsto> ''citation_doi'', ''content'' \<mapsto> ''10.1234/abc''],
          innerHTML = []\<rparr>]\<rparr>"

definition page_three_same :: page where
  "page_three_same =
     page_of
       [\<lparr>localName = ''div'', attrs = [''data-doi'' \<mapsto> ''10.1038/nature12373''], innerHTML = []\<rparr>,
        \<lparr>localName = ''p'', attrs = Map.empty, innerHTML = ''text''\<rparr>,
        \<lparr>localName = ''span'', attrs = [''data-doi'' \<mapsto> ''10.1038/nature12373''], innerHTML = []\<rparr>,
        \<lparr>localName = ''a'', attrs = [''data-doi'' \<mapsto> ''10.1038/nature12373''], innerHTML = []\<rparr>]"

definition page_two_distinct :: page where
  "page_two_distinct =
     page_of
       [\<lparr>localName = ''li'', attrs = [''data-doi'' \<mapsto> ''10.1038/nature12373''], innerHTML = []\<rparr>,
        \<lparr>localName = ''li'', attrs = [''data-doi'' \<mapsto> ''10.1038/nature12374''], innerHTML = []\<rparr>]"

definition page_pubmed_empty_anchor :: page where
  "page_pubmed_empty_anchor =
     \<lparr>docAsStr = [], docTitle = ''Sleep and memory. 10.1000/xyz123 - PubMed'',
      myHost = ''www.ncbi.nlm.nih.gov'',
      document =
        [\<lparr>localName = ''a'', attrs = [''ref'' \<mapsto> ''aid_type=doi'', ''href'' \<mapsto> ''//doi.org/''],
          innerHTML = []\<rparr>]\<rparr>"

definition page_ieee_markup_elsewhere :: page where
  "page_ieee_markup_elsewhere =
     \<lparr>docAsStr = ''var meta = {'' @ [CHR 0x27] @ ''doi'' @ [CHR 0x27] @ '':'' @ [CHR 0x27] @
                 ''10.1109/5.771073'' @ [CHR 0x27] @ ''};'',
      docTitle = [], myHost = ''example.org'', document = []\<rparr>"

definition page_psycnet :: page where
  "page_psycnet =
     \<lparr>docAsStr = ''<a href='' @ [CHR 0x27] @ ''/doi/10.1037/0022-3514.79.5.748'' @ [CHR 0x27] @ ''>'',
      docTitle = [], myHost = ''psycnet.apa.org'', document = []\<rparr>"

definition page_jama_title :: page where
  "page_jama_title =
     \<lparr>docAsStr = [], docTitle = ''Study of X (doi: 10.1001/jama.2020.1234)'', myHost = ''example.org'',
      document = []\<rparr>"

definition blank_page :: "string \<Rightarrow> page" where
  "blank_page host =
     \<lparr>docAsStr = ''<head><title>Home</title></head><body><p>Nothing here.</p></body>'',
      docTitle = ''Home'', myHost = host,
      document =
        [\<lparr>localName = ''head'', attrs = Map.empty, innerHTML = ''<title>Home</title>''\<rparr>,
         \<lparr>localName = ''title'', attrs = Map.empty, innerHTML = ''Home''\<rparr>,
         \<lparr>localName = ''body'', attrs = Map.empty, innerHTML = ''<p>Nothing here.</p>''\<rparr>,
         \<lparr>localName = ''p'', attrs = Map.empty, innerHTML = ''Nothing here.''\<rparr>]\<rparr>"

section \<open>Properties of the string primitives\<close>

lemma indexOfFrom_range: "indexOfFrom s p i = - 1 \<or> int i \<le> indexOfFrom s p i"
proof (induction s arbitrary: i)
  case Nil
  show ?case by simp
next
  case (Cons c cs)
  from Cons [of "Suc i"] show ?case by auto
qed

lemma indexOf_zero_iff: "indexOf s p = 0 \<longleftrightarrow> take (length p) s = p"
proof (cases s)
  case Nil
  then show ?thesis by (auto simp: indexOf_def)
next
  case (Cons c cs)
  from indexOfFrom_range [of cs p "Suc 0"] Cons show ?thesis
    by (auto simp: indexOf_def)
qed

lemma indexOfFrom_first:
  "s = pre @ p @ post \<Longrightarrow> \<forall>k < length pre. take (length p) (drop k s) \<noteq> p \<Longrightarrow>
   indexOfFrom s p i = int (i + length pre)"
proof (induction pre arbitrary: s i)
  case Nil
  then have t: "take (length p) s = p" by simp
  show ?case
  proof (cases s)
    case Nil
    with t show ?thesis by simp
  next
    case (Cons c cs)
    with t show ?thesis by simp
  qed
next
  case (Cons c pre)
  from Cons.prems have s: "s = c # (pre @ p @ post)" by simp
  from Cons.prems(2) [rule_format, of 0] s have h0: "take (length p) (c # (pre @ p @ post)) \<noteq> p"
    by simp
  have "\<forall>k < length pre. take (length p) (drop k (pre @ p @ post)) \<noteq> p"
  proof (intro allI impI)
    fix k assume "k < length pre"
    then have "Suc k < length (c # pre)" by simp
    from Cons.prems(2) [rule_format, OF this] s
    show "take (length p) (drop k (pre @ p @ post)) \<noteq> p" by simp
  qed
  from Cons.IH [OF refl this, of "Suc i"] h0 s show ?case by simp
qed

lemma indexOfFrom_neg_iff:
  "indexOfFrom s p i < 0 \<longleftrightarrow> (\<forall>k \<le> length s. take (length p) (drop k s) \<noteq> p)"
proof (induction s arbitrary: i)
  case Nil
  show ?case by auto
next
  case (Cons c cs)
  show ?case
  proof (cases "take (length p) (c # cs) = p")
    case True
    then have "\<not> (\<forall>k \<le> length (c # cs). take (length p) (drop k (c # cs)) \<noteq> p)"
      by (auto intro: exI [of _ 0])
    with True show ?thesis by simp
  next
    case False
    have "(\<forall>k \<le> length (c # cs). take (length p) (drop k (c # cs)) \<noteq> p)
          \<longleftrightarrow> (\<forall>k \<le> length cs. take (length p) (drop k cs) \<noteq> p)"
    proof
      assume a: "\<forall>k \<le> length (c # cs). take (length p) (drop k (c # cs)) \<noteq> p"
      show "\<forall>k \<le> length cs. take (length p) (drop k cs) \<noteq> p"
      proof (intro allI impI)
        fix k assume "k \<le> length cs"
        with a [rule_format, of "Suc k"] show "take (length p) (drop k cs) \<noteq> p" by simp
      qed
    next
      assume a: "\<forall>k \<le> length cs. take (length p) (drop k cs) \<noteq> p"
      show "\<forall>k \<le> length (c # cs). take (length p) (drop k (c # cs)) \<noteq> p"
      proof (intro allI impI)
        fix k assume k: "k \<le> length (c # cs)"
        show "take (length p) (drop k (c # cs)) \<noteq> p"
        proof (cases k)
          case 0
          with False show ?thesis by simp
        next
          case (Suc j)
          with k a [rule_format, of j] show ?thesis by simp
        qed
      qed
    qed
    with False Cons [of "Suc i"] show ?thesis by simp
  qed
qed

lemma occurs_iff_position:
  "(\<exists>pre post. s = pre @ p @ post) \<longleftrightarrow> (\<exists>k \<le> length s. take (length p) (drop k s) = p)"
proof
  assume "\<exists>pre post. s = pre @ p @ post"
  then obtain pre post where "s = pre @ p @ post" by blast
  then have "length pre \<le> length s \<and> take (length p) (drop (length pre) s) = p" by simp
  then show "\<exists>k \<le> length s. take (length p) (drop k s) = p" by blast
next
  assume "\<exists>k \<le> length s. take (length p) (drop k s) = p"
  then obtain k where k: "k \<le> length s" "take (length p) (drop k s) = p" by blast
  have "s = take k s @ take (length p) (drop k s) @ drop (length p) (drop k s)"
    by (simp only: append_take_drop_id)
  with k show "\<exists>pre post. s = pre @ p @ post" by metis
qed

lemma indexOf_neg_iff: "indexOf s p < 0 \<longleftrightarrow> \<not> (\<exists>pre post. s = pre @ p @ post)"
  unfolding indexOf_def indexOfFrom_neg_iff occurs_iff_position by blast

lemma arrayIndexOfFrom_neg_iff: "arrayIndexOfFrom xs x i < 0 \<longleftrightarrow> x \<notin> set xs"
  by (induction xs arbitrary: i) auto

lemma arrayIndexOf_neg_iff: "arrayIndexOf xs x < 0 \<longleftrightarrow> x \<notin> set xs"
  by (simp add: arrayIndexOf_def arrayIndexOfFrom_neg_iff)

lemma str_replace_first:
  assumes "s = pre @ p @ post" and "\<forall>k < length pre. take (length p) (drop k s) \<noteq> p"
  shows "str_replace s p r = pre @ r @ post"
proof -
  have "indexOf s p = int (length pre)"
    using indexOfFrom_first [OF assms, of 0] by (simp add: indexOf_def)
  then show ?thesis using assms(1) by (simp add: str_replace_def)
qed

lemma str_replace_absent:
  "\<not> (\<exists>pre post. s = pre @ p @ post) \<Longrightarrow> str_replace s p r = s"
  using indexOf_neg_iff [of s p] by (simp add: str_replace_def)

section \<open>Properties of the arbitration\<close>

lemma findDoi_loop_found:
  "\<forall>g \<in> set pre. \<not> truthy (g p) \<Longrightarrow> truthy (f p) \<Longrightarrow>
   findDoi_loop (pre @ f # post) p = (f p, Suc (length pre))"
  by (induction pre) (simp_all add: Let_def)

lemma findDoi_loop_none:
  "\<forall>g \<in> set fs. \<not> truthy (g p) \<Longrightarrow> findDoi_loop fs p = (JUndefined, length fs)"
  by (induction fs) (simp_all add: Let_def)

lemma findDoi_loop_skip:
  "\<not> truthy (f p) \<Longrightarrow>
   findDoi_loop (f # fs) p = (fst (findDoi_loop fs p), Suc (snd (findDoi_loop fs p)))"
  by (simp add: Let_def split: prod.splits)

lemma findDoi_loop_result:
  "fst (findDoi_loop fs p) = JUndefined \<or> (\<exists>s. fst (findDoi_loop fs p) = JStr s \<and> s \<noteq> [])"
proof (induction fs)
  case Nil
  show ?case by simp
next
  case (Cons f fs)
  show ?case
  proof (cases "truthy (f p)")
    case True
    then show ?thesis by (cases "f p") (simp_all add: Let_def)
  next
    case False
    with Cons show ?thesis by (cases "findDoi_loop fs p") (simp add: Let_def)
  qed
qed

lemma findDoiFromMetaTags_truthy:
  "findDoiFromMetaTags p = JStr a \<Longrightarrow> truthy (JStr a)"
  by (auto simp: findDoiFromMetaTags_def Let_def split: if_splits)

text \<open>
  C1. \<^verbatim>\<open>findDoi\<close> tries the eight detectors in the order of its array: the meta
  tags, the data attributes, ScienceDirect, IEEE, the NBER label, Psycnet, Pubmed, the
  title. When detector \<open>i\<close> is the first whose value is truthy, that value is the result,
  the loop has called \<open>i + 1\<close> detectors and no more, and whatever stands after
  detector \<open>i\<close> in the array has no part in the result. In particular, when the meta
  tags and the title both give a DOI and the two differ, the result is the one of the
  meta tags.
\<close>

theorem arbitration_order:
  "doiFinderFunctions =
     [findDoiFromMetaTags, findDoiFromDataDoiAttributes, findDoiFromScienceDirect,
      findDoiFromIeee, findDoiFromNumber, findDoiFromPsycnet, findDoiFromPubmed,
      findDoiFromTitle]
   \<and> (\<forall>i < length doiFinderFunctions.
        truthy ((doiFinderFunctions ! i) p) \<and> (\<forall>j < i. \<not> truthy ((doiFinderFunctions ! j) p)) \<longrightarrow>
        findDoi p = (doiFinderFunctions ! i) p
        \<and> (\<forall>later. findDoi_loop (take (Suc i) doiFinderFunctions @ later) p
                     = ((doiFinderFunctions ! i) p, Suc i)))
   \<and> (findDoiFromMetaTags p = JStr a \<and> findDoiFromTitle p = JStr b \<and> a \<noteq> b \<longrightarrow>
        findDoi p = JStr a)"
proof (intro conjI allI impI)
  show "doiFinderFunctions =
     [findDoiFromMetaTags, findDoiFromDataDoiAttributes, findDoiFromScienceDirect,
      findDoiFromIeee, findDoiFromNumber, findDoiFromPsycnet, findDoiFromPubmed,
      findDoiFromTitle]"
    by (simp add: doiFinderFunctions_def)
next
  fix i later
  assume i: "i < length doiFinderFunctions"
    and h: "truthy ((doiFinderFunctions ! i) p) \<and> (\<forall>j < i. \<not> truthy ((doiFinderFunctions ! j) p))"
  let ?fs = doiFinderFunctions
  have pre: "\<forall>g \<in> set (take i ?fs). \<not> truthy (g p)"
  proof
    fix g assume "g \<in> set (take i ?fs)"
    then obtain j where "j < i" "g = ?fs ! j"
      using i by (auto simp: in_set_conv_nth)
    with h show "\<not> truthy (g p)" by simp
  qed
  have len: "length (take i ?fs) = i" using i by simp
  have split1: "take (Suc i) ?fs @ rest = take i ?fs @ (?fs ! i) # rest" for rest
    using i by (simp add: take_Suc_conv_app_nth)
  show "findDoi_loop (take (Suc i) ?fs @ later) p = ((?fs ! i) p, Suc i)"
    using findDoi_loop_found [OF pre, of "?fs ! i" later] h len
    by (simp add: split1)
  have "?fs = take (Suc i) ?fs @ drop (Suc i) ?fs" by simp
  then have "findDoi_loop ?fs p = findDoi_loop (take i ?fs @ (?fs ! i) # drop (Suc i) ?fs) p"
    using split1 [of "drop (Suc i) ?fs"] by simp
  also have "\<dots> = ((?fs ! i) p, Suc i)"
    using findDoi_loop_found [OF pre, of "?fs ! i" "drop (Suc i) ?fs"] h len by simp
  finally show "findDoi p = (?fs ! i) p" by (simp add: findDoi_def)
next
  assume h: "findDoiFromMetaTags p = JStr a \<and> findDoiFromTitle p = JStr b \<and> a \<noteq> b"
  then have "truthy (findDoiFromMetaTags p)"
    using findDoiFromMetaTags_truthy [of p a] by simp
  then show "findDoi p = JStr a"
    using h by (simp add: findDoi_def doiFinderFunctions_def Let_def)
qed

theorem arbitration_order_witness:
  "findDoiFromMetaTags page_meta_and_title = JStr ''10.1234/abc''
   \<and> findDoiFromTitle page_meta_and_title = JStr ''10.5555/xyz''
   \<and> findDoi page_meta_and_title = JStr ''10.1234/abc''"
proof -
  have m: "findDoiFromMetaTags page_meta_and_title = JStr ''10.1234/abc''"
    by code_simp
  have t: "findDoiFromTitle page_meta_and_title = JStr ''10.5555/xyz''"
    by code_simp
  have d: "''10.1234/abc'' \<noteq> ''10.5555/xyz''" by simp
  from arbitration_order [of page_meta_and_title "''10.1234/abc''" "''10.5555/xyz''"] m t d
  have "findDoi page_meta_and_title = JStr ''10.1234/abc''" by blast
  with m t show ?thesis by blast
qed

lemma pubmed_empty_anchor:
  "0 \<le> indexOf (myHost p) ''www.ncbi.nlm.nih.gov'' \<Longrightarrow>
   querySelectorAll p (TagAttrEq ''a'' ''ref'' ''aid_type=doi'') = e # es \<Longrightarrow> innerHTML e = [] \<Longrightarrow>
   findDoiFromPubmed p = JStr []"
  by (simp add: findDoiFromPubmed_def Let_def)

text \<open>
  C10. The loop of \<^verbatim>\<open>findDoi\<close> tests the value of a detector for truthiness, and the
  empty string is not truthy: a detector that gives the empty string is passed over like
  one that gives \<^verbatim>\<open>null\<close>, and the loop goes on with the detectors after it. The Pubmed
  detector gives the empty string when the first anchor it selects has no content. So
  the result of \<^verbatim>\<open>findDoi\<close> is either \<^verbatim>\<open>undefined\<close> or a string that is not empty.
\<close>

theorem empty_string_not_found:
  "(f p = JStr [] \<longrightarrow>
      findDoi_loop (f # fs) p = (fst (findDoi_loop fs p), Suc (snd (findDoi_loop fs p))))
   \<and> (0 \<le> indexOf (myHost p) ''www.ncbi.nlm.nih.gov'' \<and>
       querySelectorAll p (TagAttrEq ''a'' ''ref'' ''aid_type=doi'') = e # es \<and> innerHTML e = [] \<longrightarrow>
         findDoiFromPubmed p = JStr [] \<and> findDoi p \<noteq> JStr [])
   \<and> (findDoi p = JStr s \<longrightarrow> s \<noteq> [])
   \<and> (findDoi p = JUndefined \<or> (\<exists>s. findDoi p = JStr s \<and> s \<noteq> []))"
proof (intro conjI impI)
  assume "f p = JStr []"
  then have "\<not> truthy (f p)" by simp
  then show "findDoi_loop (f # fs) p = (fst (findDoi_loop fs p), Suc (snd (findDoi_loop fs p)))"
    by (rule findDoi_loop_skip)
next
  assume h: "0 \<le> indexOf (myHost p) ''www.ncbi.nlm.nih.gov'' \<and>
       querySelectorAll p (TagAttrEq ''a'' ''ref'' ''aid_type=doi'') = e # es \<and> innerHTML e = []"
  then show "findDoiFromPubmed p = JStr []" using pubmed_empty_anchor [of p e es] by blast
  show "findDoi p \<noteq> JStr []"
    using findDoi_loop_result [of doiFinderFunctions p] by (auto simp: findDoi_def)
next
  assume "findDoi p = JStr s"
  then show "s \<noteq> []"
    using findDoi_loop_result [of doiFinderFunctions p] by (auto simp: findDoi_def)
next
  show "findDoi p = JUndefined \<or> (\<exists>s. findDoi p = JStr s \<and> s \<noteq> [])"
    using findDoi_loop_result [of doiFinderFunctions p] by (simp add: findDoi_def)
qed

theorem empty_string_not_found_witness:
  "findDoiFromPubmed page_pubmed_empty_anchor = JStr []
   \<and> findDoi page_pubmed_empty_anchor = JStr ''10.1000/xyz123''
   \<and> ''10.1000/xyz123'' \<noteq> []"
proof -
  have r: "findDoi page_pubmed_empty_anchor = JStr ''10.1000/xyz123''" by code_simp
  have h: "0 \<le> indexOf (myHost page_pubmed_empty_anchor) ''www.ncbi.nlm.nih.gov''" by code_simp
  have q: "querySelectorAll page_pubmed_empty_anchor (TagAttrEq ''a'' ''ref'' ''aid_type=doi'')
           = \<lparr>localName = ''a'', attrs = [''ref'' \<mapsto> ''aid_type=doi'', ''href'' \<mapsto> ''//doi.org/''],
               innerHTML = []\<rparr> # []"
    by (simp add: querySelectorAll_def page_pubmed_empty_anchor_def)
  have i: "innerHTML \<lparr>localName = ''a'', attrs = [''ref'' \<mapsto> ''aid_type=doi'', ''href'' \<mapsto> ''//doi.org/''],
               innerHTML = []\<rparr> = []"
    by simp
  note t = empty_string_not_found [where p = page_pubmed_empty_anchor and s = "''10.1000/xyz123''"
      and es = "[]" and f = findDoiFromPubmed and fs = "[]"
      and e = "\<lparr>localName = ''a'', attrs = [''ref'' \<mapsto> ''aid_type=doi'', ''href'' \<mapsto> ''//doi.org/''],
               innerHTML = []\<rparr>"]
  from t h q i have a: "findDoiFromPubmed page_pubmed_empty_anchor = JStr []" by blast
  from t r have b: "''10.1000/xyz123'' \<noteq> []" by blast
  from a r b show ?thesis by blast
qed

section \<open>Properties of the meta-tag scan\<close>

lemma starts_with_10: "indexOf c ''10.'' = 0 \<longleftrightarrow> take 3 c = ''10.''"
  using indexOf_zero_iff [of c "''10.''"] by (simp add: numeral_3_eq_3)

lemma metaCallback_qualifying:
  "qualifying e \<Longrightarrow>
   metaCallback doi e =
     (let c = trim (str_replace (reflected e ''content'') ''doi:'' [])
      in if take 3 c = ''10.'' then JStr c else doi)"
  by (auto simp: metaCallback_def qualifying_def Let_def starts_with_10 arrayIndexOf_neg_iff)

lemma metaCallback_not_qualifying: "\<not> qualifying e \<Longrightarrow> metaCallback doi e = doi"
  by (auto simp: metaCallback_def qualifying_def Let_def arrayIndexOf_neg_iff)

lemma metaCallback_fresh:
  "metaCallback JUndefined e = JUndefined \<or> (\<exists>v. metaCallback JUndefined e = JStr v \<and> v \<noteq> [])"
proof (cases "qualifying e")
  case True
  show ?thesis
    unfolding metaCallback_qualifying [OF True] Let_def by auto
next
  case False
  then show ?thesis by (simp add: metaCallback_not_qualifying)
qed

lemma metaCallback_overwrite:
  "metaCallback doi e = (if metaCallback JUndefined e = JUndefined then doi else metaCallback JUndefined e)"
proof (cases "qualifying e")
  case True
  show ?thesis
    unfolding metaCallback_qualifying [OF True] Let_def by auto
next
  case False
  then show ?thesis by (simp add: metaCallback_not_qualifying)
qed

lemma foldl_metaCallback_idle:
  "\<forall>e \<in> set es. metaCallback JUndefined e = JUndefined \<Longrightarrow> foldl metaCallback doi es = doi"
proof (induction es arbitrary: doi)
  case Nil
  show ?case by simp
next
  case (Cons e es)
  then show ?case using metaCallback_overwrite [of doi e] by simp
qed

lemma foldl_metaCallback_last:
  assumes "metaCallback JUndefined e = JStr v"
    and "\<forall>x \<in> set zs. metaCallback JUndefined x = JUndefined"
  shows "foldl metaCallback doi (ys @ e # zs) = JStr v"
proof -
  have "metaCallback (foldl metaCallback doi ys) e = JStr v"
    using metaCallback_overwrite [of "foldl metaCallback doi ys" e] assms(1) by simp
  then show ?thesis
    using foldl_metaCallback_idle [OF assms(2)] by simp
qed

lemma metaCallback_accept:
  "qualifying e \<Longrightarrow> take 3 (doiCandidate e) = ''10.'' \<Longrightarrow> metaCallback doi e = JStr (doiCandidate e)"
  by (simp add: metaCallback_qualifying doiCandidate_def Let_def)

lemma metaCallback_reject:
  "\<not> (qualifying e \<and> take 3 (doiCandidate e) = ''10.'') \<Longrightarrow> metaCallback doi e = doi"
proof (cases "qualifying e")
  case True
  assume "\<not> (qualifying e \<and> take 3 (doiCandidate e) = ''10.'')"
  with True have "take 3 (doiCandidate e) \<noteq> ''10.''" by simp
  then show ?thesis by (simp add: metaCallback_qualifying [OF True] doiCandidate_def Let_def)
next
  case False
  then show ?thesis by (rule metaCallback_not_qualifying)
qed

text \<open>
  C5. The scan of the meta tags goes through the elements in document order and a later
  accepted value overwrites an earlier one. Take a page with two meta elements that
  qualify (a name of the list, no scheme or the scheme \<^verbatim>\<open>doi\<close>) and whose candidates
  begin with \<^verbatim>\<open>10.\<close> and differ, and let no meta element after the second both qualify
  and have a candidate that begins with \<^verbatim>\<open>10.\<close>; whatever stands before and between
  the two, the result is the candidate of the second and not the one of the first.
\<close>

theorem meta_last_wins:
  assumes "document p = xs @ e1 # ys @ e2 # zs"
    and "localName e1 = ''meta''" and "qualifying e1" and "take 3 (doiCandidate e1) = ''10.''"
    and "localName e2 = ''meta''" and "qualifying e2" and "take 3 (doiCandidate e2) = ''10.''"
    and "doiCandidate e1 \<noteq> doiCandidate e2"
    and "\<forall>e \<in> set zs. localName e = ''meta'' \<and> qualifying e \<longrightarrow> take 3 (doiCandidate e) \<noteq> ''10.''"
  shows "findDoiFromMetaTags p = JStr (doiCandidate e2)
         \<and> findDoiFromMetaTags p \<noteq> JStr (doiCandidate e1)"
proof -
  let ?m = "filter (selects (Tag ''meta''))"
  have metas: "querySelectorAll p (Tag ''meta'') = (?m xs @ e1 # ?m ys) @ e2 # ?m zs"
    using assms(1,2,5) by (simp add: querySelectorAll_def)
  have idle: "\<forall>x \<in> set (?m zs). metaCallback JUndefined x = JUndefined"
  proof
    fix x assume "x \<in> set (?m zs)"
    then have "x \<in> set zs" and "localName x = ''meta''" by simp_all
    with assms(9) have "\<not> (qualifying x \<and> take 3 (doiCandidate x) = ''10.'')" by blast
    then show "metaCallback JUndefined x = JUndefined" by (rule metaCallback_reject)
  qed
  have acc: "metaCallback JUndefined e2 = JStr (doiCandidate e2)"
    using assms(6,7) by (rule metaCallback_accept)
  have "foldl metaCallback JUndefined (querySelectorAll p (Tag ''meta'')) = JStr (doiCandidate e2)"
    unfolding metas by (rule foldl_metaCallback_last [OF acc idle])
  moreover have "doiCandidate e2 \<noteq> []"
    using assms(7) by auto
  ultimately have "findDoiFromMetaTags p = JStr (doiCandidate e2)"
    by (simp add: findDoiFromMetaTags_def Let_def)
  with assms(8) show ?thesis by simp
qed

theorem meta_last_wins_witness:
  "document page_two_metas = [meta_viewport, meta_first, meta_second, meta_viewport, meta_isbn]
   \<and> doiCandidate meta_first = ''10.1111/first''
   \<and> doiCandidate meta_second = ''10.2222/second''
   \<and> findDoiFromMetaTags page_two_metas = JStr ''10.2222/second''
   \<and> findDoiFromMetaTags page_two_metas \<noteq> JStr ''10.1111/first''"
proof -
  have d: "document page_two_metas
           = [meta_viewport] @ meta_first # [] @ meta_second # [meta_viewport, meta_isbn]"
    by (simp add: page_two_metas_def)
  have n1: "localName meta_first = ''meta''" by (simp add: meta_first_def)
  have n2: "localName meta_second = ''meta''" by (simp add: meta_second_def)
  have q1: "qualifying meta_first" by code_simp
  have q2: "qualifying meta_second" by code_simp
  have c1: "doiCandidate meta_first = ''10.1111/first''" by code_simp
  have c2: "doiCandidate meta_second = ''10.2222/second''" by code_simp
  have t1: "take 3 (doiCandidate meta_first) = ''10.''" by code_simp
  have t2: "take 3 (doiCandidate meta_second) = ''10.''" by code_simp
  have ne: "doiCandidate meta_first \<noteq> doiCandidate meta_second" by code_simp
  have rest: "\<forall>e \<in> set [meta_viewport, meta_isbn].
      localName e = ''meta'' \<and> qualifying e \<longrightarrow> take 3 (doiCandidate e) \<noteq> ''10.''"
    by code_simp
  from meta_last_wins [OF d n1 q1 t1 n2 q2 t2 ne rest]
  have "findDoiFromMetaTags page_two_metas = JStr (doiCandidate meta_second)
        \<and> findDoiFromMetaTags page_two_metas \<noteq> JStr (doiCandidate meta_first)" .
  with c1 c2 d show ?thesis by simp
qed

text \<open>
  C7, as amended. For a meta element that passes the name and scheme tests, the scan
  removes the first occurrence of \<^verbatim>\<open>doi:\<close> from the content, wherever it stands
  (\<open>pre\<close> holds no earlier one), then the surrounding white space, and accepts the
  result exactly when it begins with \<^verbatim>\<open>10.\<close>; otherwise the variable keeps its value.
  A content of \<^verbatim>\<open>doi:10.1234/abc\<close> gives \<^verbatim>\<open>10.1234/abc\<close>.
\<close>

theorem meta_candidate:
  "qualifying e \<longrightarrow>
     (\<forall>pre post.
        reflected e ''content'' = pre @ ''doi:'' @ post \<and>
        (\<forall>k < length pre. take 4 (drop k (pre @ ''doi:'' @ post)) \<noteq> ''doi:'') \<longrightarrow>
        metaCallback doi e =
          (if take 3 (trim (pre @ post)) = ''10.'' then JStr (trim (pre @ post)) else doi))
     \<and> ((\<nexists>pre post. reflected e ''content'' = pre @ ''doi:'' @ post) \<longrightarrow>
        metaCallback doi e =
          (if take 3 (trim (reflected e ''content'')) = ''10.''
           then JStr (trim (reflected e ''content'')) else doi))
     \<and> (reflected e ''content'' = ''doi:10.1234/abc'' \<longrightarrow> metaCallback doi e = JStr ''10.1234/abc'')"
proof (intro impI conjI allI)
  fix pre post
  assume q: "qualifying e"
    and h: "reflected e ''content'' = pre @ ''doi:'' @ post \<and>
        (\<forall>k < length pre. take 4 (drop k (pre @ ''doi:'' @ post)) \<noteq> ''doi:'')"
  from h have c: "reflected e ''content'' = pre @ ''doi:'' @ post"
    and f: "\<forall>k < length pre. take 4 (drop k (pre @ ''doi:'' @ post)) \<noteq> ''doi:''"
    by blast+
  have len: "length ''doi:'' = 4" by simp
  have "str_replace (reflected e ''content'') ''doi:'' [] = pre @ [] @ post"
  proof (rule str_replace_first)
    show "reflected e ''content'' = pre @ ''doi:'' @ post" by (rule c)
    show "\<forall>k < length pre. take (length ''doi:'') (drop k (reflected e ''content'')) \<noteq> ''doi:''"
      unfolding c len by (rule f)
  qed
  then show "metaCallback doi e =
          (if take 3 (trim (pre @ post)) = ''10.'' then JStr (trim (pre @ post)) else doi)"
    by (simp add: metaCallback_qualifying [OF q] Let_def)
next
  assume q: "qualifying e"
    and h: "\<nexists>pre post. reflected e ''content'' = pre @ ''doi:'' @ post"
  show "metaCallback doi e =
          (if take 3 (trim (reflected e ''content'')) = ''10.''
           then JStr (trim (reflected e ''content'')) else doi)"
    by (simp add: metaCallback_qualifying [OF q] Let_def str_replace_absent [OF h])
next
  assume q: "qualifying e" and h: "reflected e ''content'' = ''doi:10.1234/abc''"
  have "trim (str_replace ''doi:10.1234/abc'' ''doi:'' []) = ''10.1234/abc''"
    by code_simp
  then show "metaCallback doi e = JStr ''10.1234/abc''"
    by (simp add: metaCallback_qualifying [OF q] Let_def h)
qed

theorem meta_candidate_witness:
  "metaCallback JUndefined meta_doi_prefixed = JStr ''10.1234/abc''
   \<and> metaCallback JUndefined meta_doi_inside = JStr ''10.1234/abc''"
proof -
  have q1: "qualifying meta_doi_prefixed" by code_simp
  have k1: "reflected meta_doi_prefixed ''content'' = ''doi:10.1234/abc''" by code_simp
  have q2: "qualifying meta_doi_inside" by code_simp
  have k2: "reflected meta_doi_inside ''content'' = ''10.1234/'' @ ''doi:'' @ ''abc''" by code_simp
  have f2: "\<forall>k < length ''10.1234/''. take 4 (drop k (''10.1234/'' @ ''doi:'' @ ''abc'')) \<noteq> ''doi:''"
    by (simp add: All_less_Suc numeral_eq_Suc)
  have t2: "take 3 (trim (''10.1234/'' @ ''abc'')) = ''10.'' \<and> trim (''10.1234/'' @ ''abc'') = ''10.1234/abc''"
    by code_simp
  from meta_candidate [of meta_doi_prefixed JUndefined] q1 k1
  have a: "metaCallback JUndefined meta_doi_prefixed = JStr ''10.1234/abc''" by blast
  from meta_candidate [of meta_doi_inside JUndefined] q2 k2 f2
  have "metaCallback JUndefined meta_doi_inside =
          (if take 3 (trim (''10.1234/'' @ ''abc'')) = ''10.'' then JStr (trim (''10.1234/'' @ ''abc''))
           else JUndefined)"
    by blast
  with t2 have b: "metaCallback JUndefined meta_doi_inside = JStr ''10.1234/abc''" by simp
  from a b show ?thesis by blast
qed

text \<open>
  The content \<^verbatim>\<open>10.1234/doi:abc\<close> has no leading \<^verbatim>\<open>doi:\<close>; as the claim words the
  candidate it is the content itself, which begins with \<^verbatim>\<open>10.\<close>. The scan removes
  the inner \<^verbatim>\<open>doi:\<close> and gives \<^verbatim>\<open>10.1234/abc\<close>.
\<close>

theorem meta_candidate_counterexample:
  "qualifying meta_doi_inside
   \<and> take 3 (claimed_doiCandidate (reflected meta_doi_inside ''content'')) = ''10.''
   \<and> metaCallback JUndefined meta_doi_inside
       \<noteq> JStr (claimed_doiCandidate (reflected meta_doi_inside ''content''))"
  by code_simp

text \<open>
  C8, as amended. A meta element whose \<^verbatim>\<open>scheme\<close> attribute has a non-empty value
  other than \<^verbatim>\<open>doi\<close> is left out of the scan, whatever its name and content: the
  callback leaves the variable as it was, and the scan gives what it gives on the page
  without the element. An element whose \<^verbatim>\<open>scheme\<close> attribute is empty is scanned like
  the same element without the attribute.
\<close>

theorem meta_scheme_excluded:
  "(attrs e ''scheme'' = Some v \<and> v \<noteq> [] \<and> v \<noteq> ''doi'' \<longrightarrow>
     metaCallback doi e = doi
     \<and> findDoiFromMetaTags (p\<lparr>document := xs @ e # ys\<rparr>) = findDoiFromMetaTags (p\<lparr>document := xs @ ys\<rparr>))
   \<and> (attrs e ''scheme'' = Some [] \<longrightarrow>
     metaCallback doi e = metaCallback doi (e\<lparr>attrs := (attrs e)(''scheme'' := None)\<rparr>))"
proof (intro conjI impI)
  assume "attrs e ''scheme'' = Some []"
  then show "metaCallback doi e = metaCallback doi (e\<lparr>attrs := (attrs e)(''scheme'' := None)\<rparr>)"
    by (simp add: metaCallback_def reflected_def)
next
  assume h: "attrs e ''scheme'' = Some v \<and> v \<noteq> [] \<and> v \<noteq> ''doi''"
  then have nq: "\<not> qualifying e" by (simp add: qualifying_def reflected_def)
  have skip: "metaCallback d e = d" for d
    by (rule metaCallback_not_qualifying [OF nq])
  have "foldl metaCallback JUndefined (filter (selects (Tag ''meta'')) (xs @ e # ys))
        = foldl metaCallback JUndefined (filter (selects (Tag ''meta'')) (xs @ ys))"
    by (simp add: skip)
  then show "findDoiFromMetaTags (p\<lparr>document := xs @ e # ys\<rparr>) = findDoiFromMetaTags (p\<lparr>document := xs @ ys\<rparr>)"
    by (simp add: findDoiFromMetaTags_def querySelectorAll_def)
  show "metaCallback doi e = doi" by (rule skip)
qed

theorem meta_scheme_excluded_witness:
  "attrs meta_publisher_id ''scheme'' = Some ''publisher-id''
   \<and> metaCallback JUndefined meta_publisher_id = JUndefined
   \<and> findDoiFromMetaTags ((page_of [])\<lparr>document := [meta_publisher_id]\<rparr>) = JNull"
proof -
  have s: "attrs meta_publisher_id ''scheme'' = Some ''publisher-id''" by code_simp
  have ne: "''publisher-id'' \<noteq> [] \<and> ''publisher-id'' \<noteq> ''doi''" by simp
  have e: "findDoiFromMetaTags ((page_of [])\<lparr>document := []\<rparr>) = JNull" by code_simp
  from meta_scheme_excluded [where e = meta_publisher_id and v = "''publisher-id''" and doi = JUndefined
      and p = "page_of []" and xs = "[]" and ys = "[]"] s ne
  have "metaCallback JUndefined meta_publisher_id = JUndefined
     \<and> findDoiFromMetaTags ((page_of [])\<lparr>document := [] @ meta_publisher_id # []\<rparr>)
        = findDoiFromMetaTags ((page_of [])\<lparr>document := [] @ []\<rparr>)"
    by blast
  with s e show ?thesis by simp
qed

text \<open>
  An element that declares \<^verbatim>\<open>scheme=""\<close> declares a scheme that is not \<^verbatim>\<open>doi\<close>, and
  the test \<^verbatim>\<open>myMeta.scheme && ...\<close> lets it through.
\<close>

theorem meta_scheme_excluded_counterexample:
  "attrs meta_empty_scheme ''scheme'' = Some []
   \<and> findDoiFromMetaTags (page_of [meta_empty_scheme]) = JStr ''10.1234/abc''"
  by code_simp

section \<open>Properties of the data-attribute scan\<close>

lemma dataset_doi: "dataset e ''doi'' = (case attrs e ''data-doi'' of None \<Rightarrow> JUndefined | Some v \<Rightarrow> JStr v)"
  by (simp add: dataset_def)

lemma dataDoiValues_set:
  "set (map (\<lambda>node. dataset node ''doi'') (querySelectorAll p (HasAttr ''data-doi''))) = JStr ` dataDois p"
proof -
  have "set (map (\<lambda>node. dataset node ''doi'') (filter (selects (HasAttr ''data-doi'')) es))
        = JStr ` set (List.map_filter (\<lambda>e. attrs e ''data-doi'') es)" for es
    by (induction es) (auto simp: map_filter_simps dataset_doi split: option.splits)
  then show ?thesis by (simp add: dataDois_def querySelectorAll_def)
qed

lemma card_dataDoiValues:
  "card (set (map (\<lambda>node. dataset node ''doi'') (querySelectorAll p (HasAttr ''data-doi'')))) = card (dataDois p)"
  unfolding dataDoiValues_set by (rule card_image) (simp add: inj_on_def)

lemma findDoiFromDataDoiAttributes_unique:
  assumes "dataDois p = {v}"
  shows "findDoiFromDataDoiAttributes p = JStr v"
proof -
  let ?vals = "map (\<lambda>node. dataset node ''doi'') (querySelectorAll p (HasAttr ''data-doi''))"
  have s: "set ?vals = {JStr v}" using dataDoiValues_set [of p] assms by simp
  then obtain x xs where c: "?vals = x # xs" by (cases ?vals) auto
  with s have "x = JStr v" by auto
  with c have "?vals ! 0 = JStr v" by simp
  moreover have "card (set ?vals) = 1" using card_dataDoiValues [of p] assms by simp
  ultimately show ?thesis by (simp add: findDoiFromDataDoiAttributes_def Let_def)
qed

lemma findDoiFromDataDoiAttributes_other:
  assumes "card (dataDois p) \<noteq> 1"
  shows "findDoiFromDataDoiAttributes p = JNull"
  using assms card_dataDoiValues [of p] by (simp add: findDoiFromDataDoiAttributes_def Let_def)

text \<open>
  C6. The scan of the \<^verbatim>\<open>data-doi\<close> attributes gives a value exactly when the page
  carries one distinct value of the attribute, and then it gives that value; with any
  other number of distinct values, none included, it gives \<^verbatim>\<open>null\<close>. The witness runs
  it on three elements with one value, on two elements with two values and on a page
  with no element.
\<close>

theorem data_doi_unique:
  "(findDoiFromDataDoiAttributes p = JStr v \<longleftrightarrow> dataDois p = {v})
   \<and> (card (dataDois p) \<noteq> 1 \<longrightarrow> findDoiFromDataDoiAttributes p = JNull)
   \<and> ((\<forall>e \<in> set (document p). attrs e ''data-doi'' = None) \<longrightarrow> findDoiFromDataDoiAttributes p = JNull)"
proof (intro conjI impI)
  show "findDoiFromDataDoiAttributes p = JStr v \<longleftrightarrow> dataDois p = {v}"
  proof
    assume r: "findDoiFromDataDoiAttributes p = JStr v"
    have "card (dataDois p) = 1"
    proof (rule ccontr)
      assume "card (dataDois p) \<noteq> 1"
      from findDoiFromDataDoiAttributes_other [OF this] r show False by simp
    qed
    then obtain w where w: "dataDois p = {w}" by (auto simp: card_1_singleton_iff)
    from findDoiFromDataDoiAttributes_unique [OF w] r have "w = v" by simp
    with w show "dataDois p = {v}" by simp
  next
    assume "dataDois p = {v}"
    then show "findDoiFromDataDoiAttributes p = JStr v"
      by (rule findDoiFromDataDoiAttributes_unique)
  qed
next
  assume "card (dataDois p) \<noteq> 1"
  then show "findDoiFromDataDoiAttributes p = JNull" by (rule findDoiFromDataDoiAttributes_other)
next
  assume "\<forall>e \<in> set (document p). attrs e ''data-doi'' = None"
  then have "dataDois p = {}" by (auto simp: dataDois_def map_filter_def)
  then have "card (dataDois p) \<noteq> 1" by simp
  then show "findDoiFromDataDoiAttributes p = JNull" by (rule findDoiFromDataDoiAttributes_other)
qed

theorem data_doi_unique_witness:
  "findDoiFromDataDoiAttributes page_three_same = JStr ''10.1038/nature12373''
   \<and> findDoiFromDataDoiAttributes page_two_distinct = JNull
   \<and> findDoiFromDataDoiAttributes (page_of []) = JNull"
proof -
  have a: "dataDois page_three_same = {''10.1038/nature12373''}" by code_simp
  have b: "card (dataDois page_two_distinct) \<noteq> 1" by code_simp
  have c: "\<forall>e \<in> set (document (page_of [])). attrs e ''data-doi'' = None" by (simp add: page_of_def)
  from data_doi_unique [of page_three_same "''10.1038/nature12373''"] a
  have 1: "findDoiFromDataDoiAttributes page_three_same = JStr ''10.1038/nature12373''" by blast
  from data_doi_unique [of page_two_distinct] b
  have 2: "findDoiFromDataDoiAttributes page_two_distinct = JNull" by blast
  from data_doi_unique [of "page_of []"] c
  have 3: "findDoiFromDataDoiAttributes (page_of []) = JNull" by blast
  from 1 2 3 show ?thesis by blast
qed

section \<open>Properties of the host-bound detectors\<close>

lemma runRegexOnDoc_other_host:
  "truthy host \<Longrightarrow> host \<noteq> JStr (myHost p) \<Longrightarrow> runRegexOnDoc p re host = JFalse"
  by (simp add: runRegexOnDoc_def)

text \<open>
  C4. A detector bound to a host gives no DOI on any other host, whatever the markup
  and the elements of the page are: the ScienceDirect and Pubmed detectors give \<^verbatim>\<open>null\<close>
  when the host name does not contain their fragment, the IEEE, NBER and Psycnet
  detectors give \<^verbatim>\<open>false\<close> when the host name is not theirs, and \<^verbatim>\<open>runRegexOnDoc\<close>
  gives \<^verbatim>\<open>false\<close>, for every pattern and every markup, when its host argument is set
  (a string that is not empty: the test \<^verbatim>\<open>!host\<close> takes the empty string for an absent
  argument) and is not the host name of the page.
\<close>

theorem host_scope:
  "((\<nexists>pre post. myHost p = pre @ ''sciencedirect'' @ post) \<longrightarrow> findDoiFromScienceDirect p = JNull)
   \<and> (myHost p \<noteq> ''ieeexplore.ieee.org'' \<longrightarrow> findDoiFromIeee p = JFalse)
   \<and> (myHost p \<noteq> ''www.nber.org'' \<longrightarrow> findDoiFromNumber p = JFalse)
   \<and> (myHost p \<noteq> ''psycnet.apa.org'' \<longrightarrow> findDoiFromPsycnet p = JFalse)
   \<and> ((\<nexists>pre post. myHost p = pre @ ''www.ncbi.nlm.nih.gov'' @ post) \<longrightarrow> findDoiFromPubmed p = JNull)
   \<and> (truthy host \<and> host \<noteq> JStr (myHost p) \<longrightarrow> runRegexOnDoc p re host = JFalse)"
proof (intro conjI impI)
  assume "\<nexists>pre post. myHost p = pre @ ''sciencedirect'' @ post"
  then have "indexOf (myHost p) ''sciencedirect'' < 0"
    using indexOf_neg_iff [of "myHost p" "''sciencedirect''"] by blast
  then show "findDoiFromScienceDirect p = JNull" by (simp add: findDoiFromScienceDirect_def)
next
  assume "myHost p \<noteq> ''ieeexplore.ieee.org''"
  then show "findDoiFromIeee p = JFalse"
    unfolding findDoiFromIeee_def by (intro runRegexOnDoc_other_host) auto
next
  assume "myHost p \<noteq> ''www.nber.org''"
  then show "findDoiFromNumber p = JFalse"
    unfolding findDoiFromNumber_def by (intro runRegexOnDoc_other_host) auto
next
  assume "myHost p \<noteq> ''psycnet.apa.org''"
  then show "findDoiFromPsycnet p = JFalse"
    unfolding findDoiFromPsycnet_def by (intro runRegexOnDoc_other_host) auto
next
  assume "\<nexists>pre post. myHost p = pre @ ''www.ncbi.nlm.nih.gov'' @ post"
  then have "indexOf (myHost p) ''www.ncbi.nlm.nih.gov'' < 0"
    using indexOf_neg_iff [of "myHost p" "''www.ncbi.nlm.nih.gov''"] by blast
  then show "findDoiFromPubmed p = JNull" by (simp add: findDoiFromPubmed_def)
next
  assume "truthy host \<and> host \<noteq> JStr (myHost p)"
  then show "runRegexOnDoc p re host = JFalse" by (simp add: runRegexOnDoc_other_host)
qed

theorem host_scope_witness:
  "runRegexOnDoc page_ieee_markup_elsewhere ieeeRe JUndefined = JStr ''10.1109/5.771073''
   \<and> findDoiFromIeee page_ieee_markup_elsewhere = JFalse
   \<and> findDoiFromIeee (page_ieee_markup_elsewhere\<lparr>myHost := ''ieeexplore.ieee.org''\<rparr>) = JStr ''10.1109/5.771073''
   \<and> findDoiFromScienceDirect page_ieee_markup_elsewhere = JNull"
proof -
  have m: "runRegexOnDoc page_ieee_markup_elsewhere ieeeRe JUndefined = JStr ''10.1109/5.771073''"
    by code_simp
  have m': "findDoiFromIeee (page_ieee_markup_elsewhere\<lparr>myHost := ''ieeexplore.ieee.org''\<rparr>) = JStr ''10.1109/5.771073''"
    by code_simp
  have h: "myHost page_ieee_markup_elsewhere \<noteq> ''ieeexplore.ieee.org''"
    by (simp add: page_ieee_markup_elsewhere_def)
  have "indexOf (myHost page_ieee_markup_elsewhere) ''sciencedirect'' < 0" by code_simp
  then have s: "\<nexists>pre post. myHost page_ieee_markup_elsewhere = pre @ ''sciencedirect'' @ post"
    using indexOf_neg_iff [of "myHost page_ieee_markup_elsewhere" "''sciencedirect''"] by blast
  from host_scope [of page_ieee_markup_elsewhere] h s
  have "findDoiFromIeee page_ieee_markup_elsewhere = JFalse
        \<and> findDoiFromScienceDirect page_ieee_markup_elsewhere = JNull" by blast
  with m m' show ?thesis by blast
qed

text \<open>
  C2. On the Psycnet host, with the markup \<^verbatim>\<open><a href='/doi/10.1037/0022-3514.79.5.748'>\<close>,
  the detector gives the text of the capture group, which starts after \<^verbatim>\<open>10.\<close> and runs
  to the end of the line: \<^verbatim>\<open>1037/0022-3514.79.5.748'>\<close>. The value does not begin with
  \<^verbatim>\<open>10.\<close>, and no caller puts the prefix back.
\<close>

theorem psycnet_drops_prefix:
  "findDoiFromPsycnet page_psycnet = JStr (''1037/0022-3514.79.5.748'' @ [CHR 0x27] @ ''>'')
   \<and> indexOf (''1037/0022-3514.79.5.748'' @ [CHR 0x27] @ ''>'') ''10.'' \<noteq> 0"
  by code_simp

section \<open>Properties of the pattern matcher\<close>

lemma bt_Rep_Nil:
  "bt ic (Rep a lo hi g # r) [] pos cap = (if lo = 0 then bt ic r [] pos cap else None)"
  by (cases g) (simp_all split: option.splits)

lemma bt_Rep_Cons:
  "bt ic (Rep a lo hi g # r) (c # cs) pos cap =
     (let more = (if hi \<noteq> Some 0 \<and> atom_match ic a c
                  then bt ic (Rep a (lo - 1) (map_option (\<lambda>h. h - 1) hi) g # r) cs (Suc pos) cap
                  else None);
          stop = (if lo = 0 then bt ic r (c # cs) pos cap else None)
      in if g then (case more of Some res \<Rightarrow> Some res | None \<Rightarrow> stop)
         else (case stop of Some res \<Rightarrow> Some res | None \<Rightarrow> more))"
proof (cases g)
  case True
  then have g: "g = True" by simp
  show ?thesis unfolding g by (subst bt.simps(5)) (simp only: list.case Let_def if_True)
next
  case False
  then have g: "g = False" by simp
  show ?thesis unfolding g by (subst bt.simps(6)) (simp only: list.case Let_def if_False)
qed


lemma bt_Rep_Cons_Some:
  assumes "bt ic (Rep a lo hi g # r) (c # cs) pos cap = Some res"
  shows "(hi \<noteq> Some 0 \<and> atom_match ic a c \<and>
          bt ic (Rep a (lo - 1) (map_option (\<lambda>h. h - 1) hi) g # r) cs (Suc pos) cap = Some res)
         \<or> (lo = 0 \<and> bt ic r (c # cs) pos cap = Some res)"
  using assms unfolding bt_Rep_Cons Let_def
  by (simp only: split: if_splits option.splits) blast+


declare bt.simps(5,6) [simp del]

lemma bt_Rep_sound:
  "bt ic (Rep a lo hi g # r) s pos cap = Some res \<Longrightarrow>
   \<exists>n. lo \<le> n \<and> (\<forall>h. hi = Some h \<longrightarrow> n \<le> h) \<and> n \<le> length s \<and>
       (\<forall>c \<in> set (take n s). atom_match ic a c) \<and>
       bt ic r (drop n s) (pos + n) cap = Some res"
proof (induction s arbitrary: lo hi pos)
  case Nil
  then have "lo = 0 \<and> bt ic r [] pos cap = Some res"
    by (simp add: bt_Rep_Nil split: if_splits)
  then show ?case by (intro exI [of _ 0]) simp
next
  case (Cons c cs)
  from bt_Rep_Cons_Some [OF Cons.prems] show ?case
  proof
    assume m: "hi \<noteq> Some 0 \<and> atom_match ic a c \<and>
          bt ic (Rep a (lo - 1) (map_option (\<lambda>h. h - 1) hi) g # r) cs (Suc pos) cap = Some res"
    then have h0: "hi \<noteq> Some 0" and am: "atom_match ic a c"
      and rec: "bt ic (Rep a (lo - 1) (map_option (\<lambda>h. h - 1) hi) g # r) cs (Suc pos) cap = Some res"
      by blast+
    from Cons.IH [OF rec] obtain n where n: "lo - 1 \<le> n"
      "\<forall>h. map_option (\<lambda>h. h - 1) hi = Some h \<longrightarrow> n \<le> h" "n \<le> length cs"
      "\<forall>c \<in> set (take n cs). atom_match ic a c"
      "bt ic r (drop n cs) (Suc pos + n) cap = Some res"
      by blast
    have "\<forall>h. hi = Some h \<longrightarrow> Suc n \<le> h"
    proof (intro allI impI)
      fix h assume "hi = Some h"
      with n(2) h0 show "Suc n \<le> h" by auto
    qed
    with n am show ?thesis by (intro exI [of _ "Suc n"]) auto
  next
    assume "lo = 0 \<and> bt ic r (c # cs) pos cap = Some res"
    then show ?thesis by (intro exI [of _ 0]) simp
  qed
qed

lemma bt_Rep_complete:
  "lo \<le> n \<Longrightarrow> \<forall>h. hi = Some h \<longrightarrow> n \<le> h \<Longrightarrow> n \<le> length s \<Longrightarrow>
   \<forall>c \<in> set (take n s). atom_match ic a c \<Longrightarrow>
   bt ic r (drop n s) (pos + n) cap \<noteq> None \<Longrightarrow>
   bt ic (Rep a lo hi g # r) s pos cap \<noteq> None"
proof (induction n arbitrary: s lo hi pos)
  case 0
  then have lo: "lo = 0" and k: "bt ic r s pos cap \<noteq> None" by simp_all
  show ?case
  proof (cases s)
    case Nil
    with lo k show ?thesis by (simp add: bt_Rep_Nil)
  next
    case (Cons c cs)
    with lo k show ?thesis by (auto simp: bt_Rep_Cons Let_def split: option.splits)
  qed
next
  case (Suc n)
  then obtain c cs where s: "s = c # cs" by (cases s) auto
  from Suc.prems s have am: "atom_match ic a c" by simp
  from Suc.prems(2) have h0: "hi \<noteq> Some 0" by auto
  have "bt ic (Rep a (lo - 1) (map_option (\<lambda>h. h - 1) hi) g # r) cs (Suc pos) cap \<noteq> None"
  proof (rule Suc.IH)
    show "lo - 1 \<le> n" using Suc.prems(1) by simp
    show "\<forall>h. map_option (\<lambda>h. h - 1) hi = Some h \<longrightarrow> n \<le> h" using Suc.prems(2) by auto
    show "n \<le> length cs" using Suc.prems(3) s by simp
    show "\<forall>c \<in> set (take n cs). atom_match ic a c" using Suc.prems(4) s by simp
    show "bt ic r (drop n cs) (Suc pos + n) cap \<noteq> None" using Suc.prems(5) s by simp
  qed
  with am h0 s show ?case by (auto simp: bt_Rep_Cons Let_def split: option.splits)
qed

lemma bt_One:
  "bt ic (One a # r) s pos cap = Some res \<longleftrightarrow>
   (\<exists>c cs. s = c # cs \<and> atom_match ic a c \<and> bt ic r cs (Suc pos) cap = Some res)"
  by (cases s) auto

lemma scan_sound:
  "scan re s i = Some res \<Longrightarrow> \<exists>k \<le> length s. bt (ignoreCase re) (items re) (drop k s) 0 (0, 0) \<noteq> None"
proof (induction s arbitrary: i)
  case Nil
  then show ?case by (auto split: option.splits)
next
  case (Cons c cs)
  show ?case
  proof (cases "bt (ignoreCase re) (items re) (c # cs) 0 (0, 0)")
    case None
    with Cons.prems have "scan re cs (Suc i) = Some res" by simp
    from Cons.IH [OF this] obtain k where "k \<le> length cs"
      "bt (ignoreCase re) (items re) (drop k cs) 0 (0, 0) \<noteq> None" by blast
    then show ?thesis by (intro exI [of _ "Suc k"]) simp
  next
    case (Some a)
    then show ?thesis by (intro exI [of _ 0]) simp
  qed
qed

lemma scan_complete:
  "k \<le> length s \<Longrightarrow> bt (ignoreCase re) (items re) (drop k s) 0 (0, 0) \<noteq> None \<Longrightarrow>
   scan re s i \<noteq> None"
proof (induction s arbitrary: i k)
  case Nil
  then show ?case by (auto split: option.splits)
next
  case (Cons c cs)
  show ?case
  proof (cases "bt (ignoreCase re) (items re) (c # cs) 0 (0, 0)")
    case None
    with Cons.prems obtain j where j: "k = Suc j" by (cases k) auto
    with Cons.prems have "scan re cs (Suc i) \<noteq> None" by (intro Cons.IH [of j]) auto
    with None show ?thesis by simp
  next
    case (Some a)
    then show ?thesis by (auto split: prod.splits)
  qed
qed

lemma toUpperChar_code:
  "(of_char (toUpperChar c) :: nat) =
     (let n = of_char c in if (97 \<le> n \<and> n \<le> 122) \<or> (224 \<le> n \<and> n \<le> 254 \<and> n \<noteq> 247) then n - 32 else n)"
proof -
  have "(of_char c :: nat) < 256" by simp
  then have "(of_char c :: nat) - 32 < 256" by arith
  then show ?thesis
    by (simp add: toUpperChar_def Let_def del: nat_of_char_less_256)
qed

lemma toLowerChar_code:
  "(of_char (toLowerChar c) :: nat) =
     (let n = of_char c in if (65 \<le> n \<and> n \<le> 90) \<or> (192 \<le> n \<and> n \<le> 222 \<and> n \<noteq> 215) then n + 32 else n)"
proof -
  have "(of_char c :: nat) < 256" by simp
  then have "(192 \<le> (of_char c :: nat) \<and> (of_char c :: nat) \<le> 222 \<or>
              65 \<le> (of_char c :: nat) \<and> (of_char c :: nat) \<le> 90)
     \<longrightarrow> (of_char c :: nat) + 32 < 256" by arith
  then show ?thesis
    by (auto simp: toLowerChar_def Let_def simp del: nat_of_char_less_256)
qed

lemma lit_fold:
  assumes "(of_char a :: nat) < 65"
  shows "atom_match True (Lit a) c \<longleftrightarrow> c = a"
proof -
  have "(of_char (toUpperChar c) :: nat) = of_char (toUpperChar a) \<longleftrightarrow> (of_char c :: nat) = of_char a"
    using assms unfolding toUpperChar_code Let_def by auto
  then show ?thesis by simp
qed

lemma inClass_code:
  "inClass cs rs c \<longleftrightarrow>
     (of_char c :: nat) \<in> of_char ` set cs \<or>
     (\<exists>(lo, hi) \<in> set rs. (of_char lo :: nat) \<le> of_char c \<and> (of_char c :: nat) \<le> of_char hi)"
  by (auto simp: inClass_def)

lemma title_class_code:
  "inClass ''-._;()/:'' [(CHR ''A'', CHR ''Z''), (CHR ''0'', CHR ''9'')] d \<longleftrightarrow> classCode (of_char d)"
  unfolding inClass_code classCode_def by (simp add: image_iff; blast)

lemma suffixChar_code:
  "suffixChar d \<longleftrightarrow> classCode (of_char d) \<or> (97 \<le> (of_char d :: nat) \<and> (of_char d :: nat) \<le> 122)"
  unfolding suffixChar_def inClass_code classCode_def by (simp add: image_iff; blast)

lemma suffix_class_fold:
  "atom_match True (OneOf ''-._;()/:'' [(CHR ''A'', CHR ''Z''), (CHR ''0'', CHR ''9'')]) c \<longleftrightarrow> suffixChar c"
proof -
  define n where "n = (of_char c :: nat)"
  have up: "(of_char (toUpperChar c) :: nat) =
      (if (97 \<le> n \<and> n \<le> 122) \<or> (224 \<le> n \<and> n \<le> 254 \<and> n \<noteq> 247) then n - 32 else n)"
    by (simp add: toUpperChar_code n_def Let_def)
  have low: "(of_char (toLowerChar c) :: nat) =
      (if (65 \<le> n \<and> n \<le> 90) \<or> (192 \<le> n \<and> n \<le> 222 \<and> n \<noteq> 215) then n + 32 else n)"
    by (simp add: toLowerChar_code n_def Let_def)
  have 1: "classCode (of_char (toUpperChar c)) \<longrightarrow> classCode n \<or> (97 \<le> n \<and> n \<le> 122)"
    unfolding up classCode_def by (simp split: if_splits; arith)
  have 2: "classCode (of_char (toLowerChar c)) \<longrightarrow> classCode n \<or> (97 \<le> n \<and> n \<le> 122)"
    unfolding low classCode_def by (simp split: if_splits; arith)
  have 3: "97 \<le> n \<and> n \<le> 122 \<longrightarrow> classCode (of_char (toUpperChar c))"
    unfolding up classCode_def by (simp; arith)
  from 1 2 3 show ?thesis
    unfolding atom_match.simps inClassFolded_def title_class_code suffixChar_code n_def [symmetric]
    by blast
qed

section \<open>Properties of the title detector\<close>

lemma title_items:
  "items titleRe =
     [GroupOpen, One (Lit CHR ''1''), One (Lit CHR ''0''), One Dot, Rep Digit 4 (Some 9) True,
      One (Lit CHR ''/''),
      Rep (OneOf ''-._;()/:'' [(CHR ''A'', CHR ''Z''), (CHR ''0'', CHR ''9'')]) 1 None True,
      GroupClose]"
  and title_flags: "ignoreCase titleRe = True" "global titleRe = True"
  by (simp_all add: titleRe_def)

declare bt.simps(4) [simp del]

declare match_global.simps [simp del]

lemma lit_1: "atom_match True (Lit CHR ''1'') c \<longleftrightarrow> c = CHR ''1''"
  by (rule lit_fold) simp

lemma lit_0: "atom_match True (Lit CHR ''0'') c \<longleftrightarrow> c = CHR ''0''"
  by (rule lit_fold) simp

lemma lit_slash: "atom_match True (Lit CHR ''/'') c \<longleftrightarrow> c = CHR ''/''"
  by (rule lit_fold) simp

lemma title_bt_sound:
  assumes "bt True (items titleRe) s 0 (0, 0) = Some res"
  shows "doiShapeAt s"
proof -
  let ?cls = "OneOf ''-._;()/:'' [(CHR ''A'', CHR ''Z''), (CHR ''0'', CHR ''9'')]"
  from assms obtain c3 s3 where s: "s = CHR ''1'' # CHR ''0'' # c3 # s3"
    and dot: "\<not> lineTerminator c3"
    and r1: "bt True [Rep Digit 4 (Some 9) True, One (Lit CHR ''/''), Rep ?cls 1 None True, GroupClose]
               s3 (Suc (Suc (Suc 0))) (0, 0) = Some res"
    unfolding title_items
    by (auto simp: bt_One lit_1 lit_0 numeral_3_eq_3 simp del: atom_match.simps(1))
  from bt_Rep_sound [OF r1] obtain n where n: "4 \<le> n" "n \<le> 9" "n \<le> length s3"
    "\<forall>c \<in> set (take n s3). atom_match True Digit c"
    and r2: "bt True [One (Lit CHR ''/''), Rep ?cls 1 None True, GroupClose] (drop n s3) (Suc (Suc (Suc 0)) + n) (0, 0) = Some res"
    by auto
  from r2 obtain s4 where d: "drop n s3 = CHR ''/'' # s4"
    and r3: "bt True [Rep ?cls 1 None True, GroupClose] s4 (Suc (Suc (Suc (Suc 0)) + n)) (0, 0) = Some res"
    by (auto simp: bt_One lit_slash simp del: atom_match.simps(1))
  from bt_Rep_sound [OF r3] obtain m where m: "1 \<le> m" "m \<le> length s4"
    "\<forall>c \<in> set (take m s4). atom_match True ?cls c"
    by auto
  then obtain x s5 where s4: "s4 = x # s5" by (cases s4) auto
  with m have "atom_match True ?cls x" by (cases m) auto
  then have x: "suffixChar x" by (simp only: suffix_class_fold)
  define ds where "ds = take n s3"
  have s3: "s3 = ds @ CHR ''/'' # x # s5"
    using d s4 append_take_drop_id [of n s3] by (simp add: ds_def)
  have len: "length ds = n" using n(3) by (simp add: ds_def)
  have dig: "list_all digitChar ds"
    using n(4) by (simp add: list_all_iff digitChar_def ds_def)
  have nth1: "(ds @ CHR ''/'' # x # s5) ! length ds = CHR ''/''"
    by (rule nth_append_length)
  have nth2: "(ds @ CHR ''/'' # x # s5) ! (length ds + 1) = x"
    by (simp add: nth_append)
  have "n \<in> set [4..<10]" unfolding set_upt using n(1,2) by simp
  moreover have "n + 5 \<le> length s \<and> take 2 s = ''10'' \<and> \<not> lineTerminator (s ! 2) \<and>
        list_all digitChar (take n (drop 3 s)) \<and> s ! (n + 3) = CHR ''/'' \<and> suffixChar (s ! (n + 4))"
    using dot dig nth1 nth2 x unfolding s s3 len [symmetric]
    by (simp add: numeral_eq_Suc)
  ultimately show ?thesis unfolding doiShapeAt_def by blast
qed


lemma title_bt_complete:
  assumes "doiShapeAt s"
  shows "bt True (items titleRe) s 0 (0, 0) \<noteq> None"
proof -
  let ?cls = "OneOf ''-._;()/:'' [(CHR ''A'', CHR ''Z''), (CHR ''0'', CHR ''9'')]"
  from assms obtain n where n: "n \<in> set [4..<10]" "n + 5 \<le> length s" "take 2 s = ''10''"
    "\<not> lineTerminator (s ! 2)" "list_all digitChar (take n (drop 3 s))" "s ! (n + 3) = CHR ''/''"
    "suffixChar (s ! (n + 4))"
    unfolding doiShapeAt_def by blast
  from n(1) have n49: "4 \<le> n" "n \<le> 9" unfolding set_upt by simp_all
  define s3 where "s3 = drop 3 s"
  define s4 where "s4 = drop (Suc n) s3"
  have s: "s = CHR ''1'' # CHR ''0'' # (s ! 2) # s3"
  proof -
    have "s = take 2 s @ drop 2 s" by simp
    also have "drop 2 s = s ! 2 # drop 3 s"
      using n(2) Cons_nth_drop_Suc [of 2 s] by (simp add: numeral_3_eq_3)
    finally show ?thesis using n(3) by (simp add: s3_def)
  qed
  have l3: "n + 2 \<le> length s3" using n(2) by (simp add: s3_def)
  have slash: "drop n s3 = CHR ''/'' # s4"
    using Cons_nth_drop_Suc [of n s3] l3 n(6) by (simp add: s3_def s4_def add.commute)
  have s4: "s4 = s ! (n + 4) # drop (Suc 0) s4"
  proof -
    have "s4 \<noteq> []" using l3 by (simp add: s4_def)
    then have "s4 = s4 ! 0 # drop (Suc 0) s4"
      using Cons_nth_drop_Suc [of 0 s4] by simp
    moreover have "s4 ! 0 = s ! (n + 4)"
      using l3 by (simp add: s4_def s3_def add.commute)
    ultimately show ?thesis by simp
  qed
  have cls: "atom_match True ?cls (s ! (n + 4))"
    using n(7) by (simp only: suffix_class_fold)
  have r3: "bt True [Rep ?cls 1 None True, GroupClose] s4 (Suc (3 + n)) (0, 0) \<noteq> None"
  proof (rule bt_Rep_complete [where n = 1])
    show "(1::nat) \<le> 1" by simp
    show "\<forall>h. None = Some h \<longrightarrow> 1 \<le> h" by simp
    show "1 \<le> length s4" using l3 by (simp add: s4_def)
    show "\<forall>c \<in> set (take 1 s4). atom_match True ?cls c"
      using cls by (subst s4) simp
    show "bt True [GroupClose] (drop 1 s4) (Suc (3 + n) + 1) (0, 0) \<noteq> None" by simp
  qed
  have r2: "bt True [One (Lit CHR ''/''), Rep ?cls 1 None True, GroupClose] (drop n s3) (3 + n) (0, 0) \<noteq> None"
    using r3 unfolding slash by (simp add: bt_One lit_slash del: atom_match.simps(1))
  have r1: "bt True [Rep Digit 4 (Some 9) True, One (Lit CHR ''/''), Rep ?cls 1 None True, GroupClose]
              s3 3 (0, 0) \<noteq> None"
  proof (rule bt_Rep_complete [where n = n])
    show "4 \<le> n" by (rule n49)
    show "\<forall>h. Some 9 = Some h \<longrightarrow> n \<le> h" using n49 by simp
    show "n \<le> length s3" using l3 by simp
    show "\<forall>c \<in> set (take n s3). atom_match True Digit c"
      using n(5) by (simp add: list_all_iff digitChar_def s3_def)
    show "bt True [One (Lit CHR ''/''), Rep ?cls 1 None True, GroupClose] (drop n s3) (3 + n) (0, 0) \<noteq> None"
      by (rule r2)
  qed
  show ?thesis
    unfolding title_items
    using r1 n(4) by (subst s) (simp add: bt_One lit_1 lit_0 numeral_3_eq_3 del: atom_match.simps(1))
qed

lemma title_scan: "scan titleRe t 0 \<noteq> None \<longleftrightarrow> doiShaped t"
proof
  assume "scan titleRe t 0 \<noteq> None"
  then obtain res where "scan titleRe t 0 = Some res" by blast
  from scan_sound [OF this] obtain k where k: "k \<le> length t"
    "bt True (items titleRe) (drop k t) 0 (0, 0) \<noteq> None"
    by (auto simp: title_flags)
  then have "doiShapeAt (drop k t)" using title_bt_sound [of "drop k t"] by blast
  moreover have "k \<in> set [0..<Suc (length t)]" unfolding set_upt using k(1) by simp
  ultimately show "doiShaped t" unfolding doiShaped_def by blast
next
  assume "doiShaped t"
  then obtain k where "k \<in> set [0..<Suc (length t)]" and k2: "doiShapeAt (drop k t)"
    unfolding doiShaped_def by blast
  then have k1: "k \<le> length t" unfolding set_upt by simp
  note k = k1 k2
  from title_bt_complete [OF k(2)] have "bt (ignoreCase titleRe) (items titleRe) (drop k t) 0 (0, 0) \<noteq> None"
    by (simp add: title_flags)
  from scan_complete [OF k(1) this] show "scan titleRe t 0 \<noteq> None" .
qed

lemma scan_nonempty: "scan re s i = Some (j, m) \<Longrightarrow> m \<noteq> []"
proof (induction s arbitrary: i)
  case Nil
  then show ?case by (auto split: option.splits)
next
  case (Cons c cs)
  show ?case
  proof (cases "bt (ignoreCase re) (items re) (c # cs) 0 (0, 0)")
    case None
    with Cons.prems have "scan re cs (Suc i) = Some (j, m)" by simp
    then show ?thesis by (rule Cons.IH)
  next
    case (Some a)
    with Cons.prems show ?thesis by (auto split: prod.splits)
  qed
qed

declare scan.simps [simp del]

lemma match_global_Nil: "match_global re s = [] \<longleftrightarrow> scan re s 0 = None"
proof (cases "scan re s 0")
  case None
  then show ?thesis by (subst match_global.simps) simp
next
  case (Some a)
  obtain i m where a: "a = (i, m)" by (cases a)
  have "m \<noteq> []" using Some a scan_nonempty [of re s 0 i m] by simp
  then obtain m0 caps where m: "m = m0 # caps" by (cases m) auto
  show ?thesis using Some a m by (subst match_global.simps) (simp add: Let_def)
qed

lemma findDoiFromTitle_no_shape: "\<not> doiShaped (docTitle p) \<Longrightarrow> findDoiFromTitle p = JNull"
proof -
  assume "\<not> doiShaped (docTitle p)"
  then have "scan titleRe (docTitle p) 0 = None" using title_scan [of "docTitle p"] by blast
  then have "match_global titleRe (docTitle p) = []" by (simp only: match_global_Nil)
  then show ?thesis by (simp add: findDoiFromTitle_def str_match_def title_flags)
qed

lemma findDoiFromTitle_shape: "doiShaped (docTitle p) \<Longrightarrow> \<exists>s. findDoiFromTitle p = JStr s"
proof -
  assume "doiShaped (docTitle p)"
  then have "scan titleRe (docTitle p) 0 \<noteq> None" using title_scan [of "docTitle p"] by blast
  then have "match_global titleRe (docTitle p) \<noteq> []" by (simp only: match_global_Nil not_False_eq_True)
  then obtain m ms where "match_global titleRe (docTitle p) = m # ms"
    by (cases "match_global titleRe (docTitle p)") auto
  then show ?thesis by (simp add: findDoiFromTitle_def str_match_def title_flags)
qed

text \<open>
  C3, as amended. On the title \<^verbatim>\<open>Study of X (doi: 10.1001/jama.2020.1234)\<close> the title
  detector gives \<^verbatim>\<open>10.1001/jama.2020.1234)\<close>, closing parenthesis included: the
  parentheses belong to the class of the suffix, and the quantifier is greedy. A title
  with no substring of the shape of a DOI gives \<^verbatim>\<open>null\<close>, and a title with one gives a
  string. The shape is the one of the pattern: \<^verbatim>\<open>10\<close>, any one character but a line
  terminator (the dot of the pattern is not escaped), four to nine digits, a slash, and
  at least one character of the suffix.
\<close>

theorem title_detector:
  "findDoiFromTitle (p\<lparr>docTitle := ''Study of X (doi: 10.1001/jama.2020.1234)''\<rparr>)
     = JStr ''10.1001/jama.2020.1234)''
   \<and> (\<not> doiShaped (docTitle p) \<longrightarrow> findDoiFromTitle p = JNull)
   \<and> (doiShaped (docTitle p) \<longrightarrow> (\<exists>s. findDoiFromTitle p = JStr s))"
proof (intro conjI impI)
  have "str_match ''Study of X (doi: 10.1001/jama.2020.1234)'' titleRe = Some [''10.1001/jama.2020.1234)'']"
    by code_simp
  then show "findDoiFromTitle (p\<lparr>docTitle := ''Study of X (doi: 10.1001/jama.2020.1234)''\<rparr>)
     = JStr ''10.1001/jama.2020.1234)''"
    by (simp add: findDoiFromTitle_def)
next
  assume "\<not> doiShaped (docTitle p)"
  then show "findDoiFromTitle p = JNull" by (rule findDoiFromTitle_no_shape)
next
  assume "doiShaped (docTitle p)"
  then show "\<exists>s. findDoiFromTitle p = JStr s" by (rule findDoiFromTitle_shape)
qed

theorem title_detector_witness:
  "\<not> doiShaped ''Annual report 2020''
   \<and> findDoiFromTitle (page_jama_title\<lparr>docTitle := ''Annual report 2020''\<rparr>) = JNull
   \<and> findDoiFromTitle page_jama_title = JStr ''10.1001/jama.2020.1234)''"
proof -
  have n: "\<not> doiShaped ''Annual report 2020''" by code_simp
  have t: "docTitle (page_jama_title\<lparr>docTitle := ''Annual report 2020''\<rparr>) = ''Annual report 2020''"
    by simp
  have u: "page_jama_title\<lparr>docTitle := ''Study of X (doi: 10.1001/jama.2020.1234)''\<rparr> = page_jama_title"
    by (simp add: page_jama_title_def)
  from title_detector [of "page_jama_title\<lparr>docTitle := ''Annual report 2020''\<rparr>"] n t
  have a: "findDoiFromTitle (page_jama_title\<lparr>docTitle := ''Annual report 2020''\<rparr>) = JNull"
    by metis
  from title_detector [of page_jama_title] u
  have b: "findDoiFromTitle page_jama_title = JStr ''10.1001/jama.2020.1234)''" by metis
  from n a b show ?thesis by blast
qed

text \<open>
  The value on the title of the claim is not the DOI alone.
\<close>

theorem title_detector_counterexample:
  "findDoiFromTitle page_jama_title \<noteq> JStr ''10.1001/jama.2020.1234''"
  by code_simp

section \<open>Pages without markers\<close>

lemma findDoiFromMetaTags_no_marker:
  assumes "\<forall>e \<in> set (document p). localName e = ''meta'' \<longrightarrow>
             toLowerCase (reflected e ''name'') \<notin> set doiMetaNames"
  shows "findDoiFromMetaTags p = JNull"
proof -
  have "\<forall>e \<in> set (querySelectorAll p (Tag ''meta'')). metaCallback JUndefined e = JUndefined"
    using assms by (auto simp: querySelectorAll_def metaCallback_not_qualifying qualifying_def)
  from foldl_metaCallback_idle [OF this] show ?thesis
    by (simp add: findDoiFromMetaTags_def Let_def)
qed

lemma runRegexOnDoc_no_match:
  "regex_exec re (docAsStr p) = None \<Longrightarrow> runRegexOnDoc p re host = JFalse"
  by (simp add: runRegexOnDoc_def)

lemma findDoiFromScienceDirect_no_marker:
  assumes "regex_exec sdmDoiRe (docAsStr p) = None"
    and "\<forall>e \<in> set (querySelectorAll p (TagClass ''a'' ''doi'')). str_match (innerHTML e) doiOrgRe = None"
  shows "findDoiFromScienceDirect p = JNull \<or> findDoiFromScienceDirect p = JUndefined"
proof (cases "querySelectorAll p (TagClass ''a'' ''doi'')")
  case Nil
  then show ?thesis
    using assms(1) by (simp add: findDoiFromScienceDirect_def runRegexOnDoc_no_match Let_def)
next
  case (Cons e es)
  with assms(2) have "str_match (innerHTML e) doiOrgRe = None" by simp
  with Cons show ?thesis
    using assms(1) by (simp add: findDoiFromScienceDirect_def runRegexOnDoc_no_match Let_def)
qed

lemma findDoiFromPubmed_no_marker:
  "querySelectorAll p (TagAttrEq ''a'' ''ref'' ''aid_type=doi'') = [] \<Longrightarrow>
   findDoiFromPubmed p = JNull \<or> findDoiFromPubmed p = JUndefined"
  by (simp add: findDoiFromPubmed_def Let_def)

text \<open>
  C9. A detector gives a string or one of \<^verbatim>\<open>null\<close>, \<^verbatim>\<open>false\<close> and \<^verbatim>\<open>undefined\<close>;
  none of them has a third kind of outcome, and every detector of the model is a total
  function of the page. On a page without what it looks for, each one gives a value that
  is not truthy: no meta element with a name of the list, no \<^verbatim>\<open>data-doi\<close> attribute, no
  match of the pattern in the markup and no anchor of the class with a \<^verbatim>\<open>doi.org/\<close>
  link, no anchor of the Pubmed kind, no substring of the shape of a DOI in the title.
  The loop then goes on to the next detector, and when all eight values are not truthy
  \<^verbatim>\<open>findDoi\<close> has called the eight of them and gives \<^verbatim>\<open>undefined\<close>.
\<close>

theorem no_markers_not_found:
  "((\<forall>e \<in> set (document p). localName e = ''meta'' \<longrightarrow>
        toLowerCase (reflected e ''name'') \<notin> set doiMetaNames) \<longrightarrow>
      findDoiFromMetaTags p = JNull)
   \<and> ((\<forall>e \<in> set (document p). attrs e ''data-doi'' = None) \<longrightarrow>
      findDoiFromDataDoiAttributes p = JNull)
   \<and> (regex_exec sdmDoiRe (docAsStr p) = None \<and>
       (\<forall>e \<in> set (querySelectorAll p (TagClass ''a'' ''doi'')). str_match (innerHTML e) doiOrgRe = None) \<longrightarrow>
      findDoiFromScienceDirect p = JNull \<or> findDoiFromScienceDirect p = JUndefined)
   \<and> (regex_exec ieeeRe (docAsStr p) = None \<longrightarrow> findDoiFromIeee p = JFalse)
   \<and> (regex_exec nberRe (docAsStr p) = None \<longrightarrow> findDoiFromNumber p = JFalse)
   \<and> (regex_exec psycnetRe (docAsStr p) = None \<longrightarrow> findDoiFromPsycnet p = JFalse)
   \<and> (querySelectorAll p (TagAttrEq ''a'' ''ref'' ''aid_type=doi'') = [] \<longrightarrow>
      findDoiFromPubmed p = JNull \<or> findDoiFromPubmed p = JUndefined)
   \<and> (\<not> doiShaped (docTitle p) \<longrightarrow> findDoiFromTitle p = JNull)
   \<and> (\<not> truthy (f p) \<longrightarrow>
      findDoi_loop (f # fs) p = (fst (findDoi_loop fs p), Suc (snd (findDoi_loop fs p))))
   \<and> ((\<forall>g \<in> set doiFinderFunctions. \<not> truthy (g p)) \<longrightarrow>
      findDoi p = JUndefined \<and> findDoi_loop doiFinderFunctions p = (JUndefined, 8))"
proof (intro conjI impI)
  assume "\<forall>e \<in> set (document p). localName e = ''meta'' \<longrightarrow>
        toLowerCase (reflected e ''name'') \<notin> set doiMetaNames"
  then show "findDoiFromMetaTags p = JNull" by (rule findDoiFromMetaTags_no_marker)
next
  assume "\<forall>e \<in> set (document p). attrs e ''data-doi'' = None"
  then have "dataDois p = {}" by (auto simp: dataDois_def map_filter_def)
  then have "card (dataDois p) \<noteq> 1" by simp
  then show "findDoiFromDataDoiAttributes p = JNull" by (rule findDoiFromDataDoiAttributes_other)
next
  assume "regex_exec sdmDoiRe (docAsStr p) = None \<and>
       (\<forall>e \<in> set (querySelectorAll p (TagClass ''a'' ''doi'')). str_match (innerHTML e) doiOrgRe = None)"
  then show "findDoiFromScienceDirect p = JNull \<or> findDoiFromScienceDirect p = JUndefined"
    using findDoiFromScienceDirect_no_marker [of p] by blast
next
  assume "regex_exec ieeeRe (docAsStr p) = None"
  then show "findDoiFromIeee p = JFalse" by (simp add: findDoiFromIeee_def runRegexOnDoc_no_match)
next
  assume "regex_exec nberRe (docAsStr p) = None"
  then show "findDoiFromNumber p = JFalse" by (simp add: findDoiFromNumber_def runRegexOnDoc_no_match)
next
  assume "regex_exec psycnetRe (docAsStr p) = None"
  then show "findDoiFromPsycnet p = JFalse" by (simp add: findDoiFromPsycnet_def runRegexOnDoc_no_match)
next
  assume "querySelectorAll p (TagAttrEq ''a'' ''ref'' ''aid_type=doi'') = []"
  then show "findDoiFromPubmed p = JNull \<or> findDoiFromPubmed p = JUndefined"
    by (rule findDoiFromPubmed_no_marker)
next
  assume "\<not> doiShaped (docTitle p)"
  then show "findDoiFromTitle p = JNull" by (rule findDoiFromTitle_no_shape)
next
  assume "\<not> truthy (f p)"
  then show "findDoi_loop (f # fs) p = (fst (findDoi_loop fs p), Suc (snd (findDoi_loop fs p)))"
    by (rule findDoi_loop_skip)
next
  assume a: "\<forall>g \<in> set doiFinderFunctions. \<not> truthy (g p)"
  have "length doiFinderFunctions = 8" by (simp add: doiFinderFunctions_def)
  with findDoi_loop_none [OF a] show "findDoi_loop doiFinderFunctions p = (JUndefined, 8)" by simp
  then show "findDoi p = JUndefined" by (simp add: findDoi_def)
qed

theorem no_markers_not_found_witness:
  "findDoiFromMetaTags (blank_page ''www.sciencedirect.com'') = JNull
   \<and> findDoiFromDataDoiAttributes (blank_page ''www.sciencedirect.com'') = JNull
   \<and> findDoiFromScienceDirect (blank_page ''www.sciencedirect.com'') = JUndefined
   \<and> findDoiFromIeee (blank_page ''ieeexplore.ieee.org'') = JFalse
   \<and> findDoiFromNumber (blank_page ''www.nber.org'') = JFalse
   \<and> findDoiFromPsycnet (blank_page ''psycnet.apa.org'') = JFalse
   \<and> findDoiFromPubmed (blank_page ''www.ncbi.nlm.nih.gov'') = JUndefined
   \<and> findDoiFromTitle (blank_page ''www.sciencedirect.com'') = JNull
   \<and> findDoi (blank_page ''www.sciencedirect.com'') = JUndefined
   \<and> findDoi_loop doiFinderFunctions (blank_page ''www.sciencedirect.com'') = (JUndefined, 8)"
proof -
  let ?sd = "blank_page ''www.sciencedirect.com''"
  have m: "\<forall>e \<in> set (document ?sd). localName e = ''meta'' \<longrightarrow>
        toLowerCase (reflected e ''name'') \<notin> set doiMetaNames" by code_simp
  have d: "\<forall>e \<in> set (document ?sd). attrs e ''data-doi'' = None" by code_simp
  have s: "regex_exec sdmDoiRe (docAsStr ?sd) = None \<and>
       (\<forall>e \<in> set (querySelectorAll ?sd (TagClass ''a'' ''doi'')). str_match (innerHTML e) doiOrgRe = None)"
    by code_simp
  have i: "regex_exec ieeeRe (docAsStr (blank_page ''ieeexplore.ieee.org'')) = None" by code_simp
  have n: "regex_exec nberRe (docAsStr (blank_page ''www.nber.org'')) = None" by code_simp
  have y: "regex_exec psycnetRe (docAsStr (blank_page ''psycnet.apa.org'')) = None" by code_simp
  have u: "querySelectorAll (blank_page ''www.ncbi.nlm.nih.gov'') (TagAttrEq ''a'' ''ref'' ''aid_type=doi'') = []"
    by code_simp
  have t: "\<not> doiShaped (docTitle ?sd)" by code_simp
  have sdu: "findDoiFromScienceDirect ?sd \<noteq> JNull" by code_simp
  have pmu: "findDoiFromPubmed (blank_page ''www.ncbi.nlm.nih.gov'') \<noteq> JNull" by code_simp
  note T = no_markers_not_found
  from T [of ?sd] m have 1: "findDoiFromMetaTags ?sd = JNull" by blast
  from T [of ?sd] d have 2: "findDoiFromDataDoiAttributes ?sd = JNull" by blast
  from T [of ?sd] s sdu have 3: "findDoiFromScienceDirect ?sd = JUndefined" by blast
  from T [of "blank_page ''ieeexplore.ieee.org''"] i
  have 4: "findDoiFromIeee (blank_page ''ieeexplore.ieee.org'') = JFalse" by blast
  from T [of "blank_page ''www.nber.org''"] n
  have 5: "findDoiFromNumber (blank_page ''www.nber.org'') = JFalse" by blast
  from T [of "blank_page ''psycnet.apa.org''"] y
  have 6: "findDoiFromPsycnet (blank_page ''psycnet.apa.org'') = JFalse" by blast
  from T [of "blank_page ''www.ncbi.nlm.nih.gov''"] u pmu
  have 7: "findDoiFromPubmed (blank_page ''www.ncbi.nlm.nih.gov'') = JUndefined" by blast
  from T [of ?sd] t have 8: "findDoiFromTitle ?sd = JNull" by blast
  have o: "findDoiFromIeee ?sd = JFalse \<and> findDoiFromNumber ?sd = JFalse \<and> findDoiFromPsycnet ?sd = JFalse
           \<and> findDoiFromPubmed ?sd = JNull"
    by code_simp
  have all: "\<forall>g \<in> set doiFinderFunctions. \<not> truthy (g ?sd)"
    using 1 2 3 8 o by (simp add: doiFinderFunctions_def)
  from T [of ?sd] all
  have 9: "findDoi ?sd = JUndefined \<and> findDoi_loop doiFinderFunctions ?sd = (JUndefined, 8)" by blast
  from 1 2 3 4 5 6 7 8 9 show ?thesis by blast
qed

end
